theory Spec2Isabelle
  imports Main "HOL-Library.Multiset"
begin

section \<open>Python exceptions\<close>

text \<open>
  Every exception the pipeline of \<^verbatim>\<open>download_data_sst.py\<close> can raise is a value.
  A computation that can raise returns \<open>exn + 'a\<close>, with \<open>Inl\<close> for the exception.
\<close>

datatype exn =
    ValueError
  | OverflowError
  | KeyError
  | TypeError
  | IndexError
  | HTTPError int
  | RequestException string
  | FileNotFoundError string

section \<open>The calendar of Python's \<^verbatim>\<open>datetime\<close>\<close>

text \<open>
  \<^verbatim>\<open>generate_date_ranges\<close> works on \<^verbatim>\<open>datetime\<close> objects whose time of day is always
  midnight, so a value is its proleptic Gregorian date. The helpers below follow the
  pure-Python implementation of the standard library (\<^verbatim>\<open>_is_leap\<close>,
  \<^verbatim>\<open>_days_before_year\<close>, \<^verbatim>\<open>_days_in_month\<close>, \<^verbatim>\<open>_days_before_month\<close>, \<^verbatim>\<open>_ymd2ord\<close>,
  \<^verbatim>\<open>_ord2ymd\<close>, \<^verbatim>\<open>_check_date_fields\<close>); Python's \<^verbatim>\<open>//\<close> and \<^verbatim>\<open>%\<close> on \<^verbatim>\<open>int\<close> are
  \<open>div\<close> and \<open>mod\<close> on \<^typ>\<open>int\<close> (both round towards minus infinity).
\<close>

record datetime =
  year :: int
  month :: int
  day :: int

definition MINYEAR :: int where
  "MINYEAR = 1"

definition MAXYEAR :: int where
  "MAXYEAR = 9999"

definition MAXORDINAL :: int where
  "MAXORDINAL = 3652059"

definition DAYS_IN_MONTH :: "int list" where
  "DAYS_IN_MONTH = [-1, 31, 28, 31, 30, 31, 30, 31, 31, 30, 31, 30, 31]"

definition DAYS_BEFORE_MONTH :: "int list" where
  "DAYS_BEFORE_MONTH = [-1, 0, 31, 59, 90, 120, 151, 181, 212, 243, 273, 304, 334]"

definition DI400Y :: int where
  "DI400Y = 146097"

definition DI100Y :: int where
  "DI100Y = 36524"

definition DI4Y :: int where
  "DI4Y = 1461"

definition is_leap :: "int \<Rightarrow> bool" where
  "is_leap y \<longleftrightarrow> y mod 4 = 0 \<and> (y mod 100 \<noteq> 0 \<or> y mod 400 = 0)"

definition days_before_year :: "int \<Rightarrow> int" where
  "days_before_year y = (let y1 = y - 1 in y1 * 365 + y1 div 4 - y1 div 100 + y1 div 400)"

definition cal_days_in_month :: "int \<Rightarrow> int \<Rightarrow> int" where
  "cal_days_in_month y m = (if m = 2 \<and> is_leap y then 29 else DAYS_IN_MONTH ! nat m)"

definition cal_days_before_month :: "int \<Rightarrow> int \<Rightarrow> int" where
  "cal_days_before_month y m = DAYS_BEFORE_MONTH ! nat m + (if m > 2 \<and> is_leap y then 1 else 0)"

definition ymd2ord :: "int \<Rightarrow> int \<Rightarrow> int \<Rightarrow> int" where
  "ymd2ord y m d = days_before_year y + cal_days_before_month y m + d"

definition toordinal :: "datetime \<Rightarrow> int" where
  "toordinal dt = ymd2ord (year dt) (month dt) (day dt)"

definition ord2ymd :: "int \<Rightarrow> datetime" where
  "ord2ymd n0 =
     (let n = n0 - 1;
          n400 = n div DI400Y; n = n mod DI400Y;
          y = n400 * 400 + 1;
          n100 = n div DI100Y; n = n mod DI100Y;
          n4 = n div DI4Y; n = n mod DI4Y;
          n1 = n div 365; n = n mod 365;
          y = y + (n100 * 100 + n4 * 4 + n1)
      in if n1 = 4 \<or> n100 = 4 then \<lparr>year = y - 1, month = 12, day = 31\<rparr>
         else
           let leapyear = (n1 = 3 \<and> (n4 \<noteq> 24 \<or> n100 = 3));
               m = (n + 50) div 32;
               preceding = DAYS_BEFORE_MONTH ! nat m + (if m > 2 \<and> leapyear then 1 else 0)
           in if preceding > n
              then
                let m = m - 1;
                    preceding = preceding - (DAYS_IN_MONTH ! nat m + (if m = 2 \<and> leapyear then 1 else 0))
                in \<lparr>year = y, month = m, day = n - preceding + 1\<rparr>
              else \<lparr>year = y, month = m, day = n - preceding + 1\<rparr>)"

text \<open>
  \<^verbatim>\<open>datetime(year, month, day)\<close>: the constructor checks the fields and raises
  \<^verbatim>\<open>ValueError\<close> for a year outside \<^verbatim>\<open>MINYEAR..MAXYEAR\<close>, a month outside 1..12 or a day
  outside the month.
\<close>

definition check_date_fields :: "int \<Rightarrow> int \<Rightarrow> int \<Rightarrow> exn + datetime" where
  "check_date_fields y m d =
     (if \<not> (MINYEAR \<le> y \<and> y \<le> MAXYEAR) then Inl ValueError
      else if \<not> (1 \<le> m \<and> m \<le> 12) then Inl ValueError
      else if \<not> (1 \<le> d \<and> d \<le> cal_days_in_month y m) then Inl ValueError
      else Inr \<lparr>year = y, month = m, day = d\<rparr>)"

text \<open>
  \<^verbatim>\<open>dt.replace(year=..., month=..., day=...)\<close>: a keyword that is not given is \<open>None\<close>
  and keeps the field; the result goes through the constructor again.
\<close>

definition replace :: "datetime \<Rightarrow> int option \<Rightarrow> int option \<Rightarrow> int option \<Rightarrow> exn + datetime" where
  "replace dt y m d =
     check_date_fields (case y of None \<Rightarrow> year dt | Some v \<Rightarrow> v)
                       (case m of None \<Rightarrow> month dt | Some v \<Rightarrow> v)
                       (case d of None \<Rightarrow> day dt | Some v \<Rightarrow> v)"

text \<open>
  \<^verbatim>\<open>dt + timedelta(days=k)\<close> goes through the ordinal and raises \<^verbatim>\<open>OverflowError\<close>
  when the result leaves \<^verbatim>\<open>1.._MAXORDINAL\<close>; \<^verbatim>\<open>dt - timedelta(days=k)\<close> is
  \<^verbatim>\<open>dt + (-timedelta(days=k))\<close>; \<^verbatim>\<open>(a - b).days\<close> is the difference of the ordinals.
\<close>

definition add_days :: "datetime \<Rightarrow> int \<Rightarrow> exn + datetime" where
  "add_days dt k =
     (let n = toordinal dt + k
      in if 0 < n \<and> n \<le> MAXORDINAL then Inr (ord2ymd n) else Inl OverflowError)"

definition sub_days :: "datetime \<Rightarrow> int \<Rightarrow> exn + datetime" where
  "sub_days dt k = add_days dt (- k)"

definition days_between :: "datetime \<Rightarrow> datetime \<Rightarrow> int" where
  "days_between a b = toordinal a - toordinal b"

text \<open>\<^verbatim>\<open>a <= b\<close> on \<^verbatim>\<open>datetime\<close> compares the fields lexicographically.\<close>

definition datetime_le :: "datetime \<Rightarrow> datetime \<Rightarrow> bool" where
  "datetime_le a b \<longleftrightarrow>
     year a < year b \<or>
     (year a = year b \<and> (month a < month b \<or> (month a = month b \<and> day a \<le> day b)))"


text \<open>
  \<^verbatim>\<open>dt.strftime("%Y-%m-%d")\<close>: month and day are zero-padded to two digits. The year is
  the decimal year as the C library prints it; for the years 1000..9999 this is four
  digits on every platform (glibc does not pad a shorter year).
\<close>

fun show_nat :: "nat \<Rightarrow> string" where
  "show_nat n =
     (if n < 10 then [''0123456789'' ! n]
      else show_nat (n div 10) @ [''0123456789'' ! (n mod 10)])"

definition zfill :: "nat \<Rightarrow> string \<Rightarrow> string" where
  "zfill w s = replicate (w - length s) (CHR ''0'') @ s"

definition strftime :: "datetime \<Rightarrow> string" where
  "strftime dt =
     show_nat (nat (year dt)) @ ''-'' @ zfill 2 (show_nat (nat (month dt))) @ ''-'' @
     zfill 2 (show_nat (nat (day dt)))"

section \<open>\<^verbatim>\<open>generate_date_ranges\<close>\<close>

text \<open>
  The body of the \<^verbatim>\<open>while\<close> loop, in the order of the source: the end of the month,
  the three parts (\<open>month_ranges\<close> returns them as dates, the loop appends them
  formatted), and the move to the next month. Each
  \<^verbatim>\<open>replace\<close> and each \<^verbatim>\<open>timedelta\<close> addition can raise, which ends the call.
\<close>

definition end_of_month_of :: "datetime \<Rightarrow> exn + datetime" where
  "end_of_month_of start_date =
     (if month start_date = 12 then replace start_date None None (Some 31)
      else case replace start_date None (Some (month start_date + 1)) (Some 1) of
             Inl e \<Rightarrow> Inl e
           | Inr d \<Rightarrow> sub_days d 1)"

definition month_ranges :: "datetime \<Rightarrow> exn + (datetime \<times> datetime) list" where
  "month_ranges start_date =
     (case end_of_month_of start_date of
        Inl e \<Rightarrow> Inl e
      | Inr end_of_month \<Rightarrow>
          (let days_in_month = days_between end_of_month start_date + 1;
               part_size = days_in_month div 3
           in (case add_days start_date (part_size - 1) of
                 Inl e \<Rightarrow> Inl e
               | Inr end_part_1 \<Rightarrow>
                   (case add_days end_part_1 1 of
                      Inl e \<Rightarrow> Inl e
                    | Inr start_part_2 \<Rightarrow>
                        (case add_days start_part_2 (part_size - 1) of
                           Inl e \<Rightarrow> Inl e
                         | Inr end_part_2 \<Rightarrow>
                             (case add_days end_part_2 1 of
                                Inl e \<Rightarrow> Inl e
                              | Inr start_part_3 \<Rightarrow>
                                  Inr [(start_date, end_part_1),
                                       (start_part_2, end_part_2),
                                       (start_part_3, end_of_month)]))))))"

text \<open>
  \<^verbatim>\<open>date_ranges.append((a.strftime("%Y-%m-%d"), b.strftime("%Y-%m-%d")))\<close>: what is
  stored is the pair of formatted strings.
\<close>

definition format_range :: "datetime \<times> datetime \<Rightarrow> string \<times> string" where
  "format_range r = (strftime (fst r), strftime (snd r))"

definition next_month :: "datetime \<Rightarrow> exn + datetime" where
  "next_month start_date =
     (if month start_date = 12
      then replace start_date (Some (year start_date + 1)) (Some 1) (Some 1)
      else replace start_date None (Some (month start_date + 1)) (Some 1))"

lemma next_month_advances:
  assumes "next_month d = Inr d'"
  shows "12 * year d' + month d' = 12 * year d + month d + 1" and "0 \<le> month d" and "month d \<le> 12"
  using assms
  by (auto simp: next_month_def replace_def check_date_fields_def split: if_splits)

function gen_loop :: "datetime \<Rightarrow> datetime \<Rightarrow> (string \<times> string) list \<Rightarrow> exn + (string \<times> string) list" where
  "gen_loop end_date start_date date_ranges =
     (if datetime_le start_date end_date
      then case month_ranges start_date of
             Inl e \<Rightarrow> Inl e
           | Inr parts \<Rightarrow>
               (case next_month start_date of
                  Inl e \<Rightarrow> Inl e
                | Inr nxt \<Rightarrow> gen_loop end_date nxt (date_ranges @ map format_range parts))
      else Inr date_ranges)"
  by pat_completeness auto
termination
proof (relation "measure (\<lambda>(end_date, start_date, date_ranges).
          nat (12 * (year end_date - year start_date)
               + (max (month end_date) 0 - month start_date) + 13))", goal_cases)
  case 1
  show ?case by simp
next
  case (2 end_date start_date date_ranges parts nxt)
  from next_month_advances[OF 2(3)]
  have a: "12 * year nxt + month nxt = 12 * year start_date + month start_date + 1"
    and b: "0 \<le> month start_date" "month start_date \<le> 12" by simp_all
  from 2(1) b have "0 < 12 * (year end_date - year start_date)
               + (max (month end_date) 0 - month start_date) + 13"
    unfolding datetime_le_def by (auto simp: max_def)
  with a show ?case by simp
qed

definition generate_date_ranges :: "int \<Rightarrow> int \<Rightarrow> exn + (string \<times> string) list" where
  "generate_date_ranges start_year end_year =
     (case check_date_fields start_year 1 1 of
        Inl e \<Rightarrow> Inl e
      | Inr start_date \<Rightarrow>
          (case check_date_fields end_year 1 31 of
             Inl e \<Rightarrow> Inl e
           | Inr end_date \<Rightarrow> gen_loop end_date start_date []))"

declare gen_loop.simps [simp del]

declare show_nat.simps [simp del]

section \<open>The partition as the specification words it\<close>

text \<open>
  The specification describes the output month by month: with
  \<open>partSize = daysInMonth // 3\<close> a month gives the three intervals
  \<open>[day1, day1 + partSize - 1]\<close>, \<open>[next, next + partSize - 1]\<close> and
  \<open>[next, monthEnd]\<close>, where \<open>next\<close> is the day after the previous interval.
  \<open>month_parts\<close> follows these words; it is compared with the loop of the source below.
\<close>

definition month_parts :: "int \<Rightarrow> int \<Rightarrow> (datetime \<times> datetime) list" where
  "month_parts y m =
     (let daysInMonth = cal_days_in_month y m;
          partSize = daysInMonth div 3
      in [(\<lparr>year = y, month = m, day = 1\<rparr>, \<lparr>year = y, month = m, day = 1 + partSize - 1\<rparr>),
          (\<lparr>year = y, month = m, day = 1 + partSize\<rparr>,
           \<lparr>year = y, month = m, day = 1 + partSize + partSize - 1\<rparr>),
          (\<lparr>year = y, month = m, day = 1 + partSize + partSize\<rparr>,
           \<lparr>year = y, month = m, day = daysInMonth\<rparr>)])"

text \<open>
  The covered months run from January of \<open>startYear\<close> to January of \<open>endYear\<close>.
  Month number \<open>i = 12 * y + (m - 1)\<close> is month \<open>m\<close> of year \<open>y\<close>, so these are the
  numbers \<open>12 * startYear\<close> to \<open>12 * endYear\<close>.
\<close>

definition covered_months :: "int \<Rightarrow> int \<Rightarrow> (int \<times> int) list" where
  "covered_months startYear endYear =
     map (\<lambda>i. (i div 12, i mod 12 + 1)) [12 * startYear .. 12 * endYear]"

definition partition_spec :: "int \<Rightarrow> int \<Rightarrow> (datetime \<times> datetime) list" where
  "partition_spec startYear endYear =
     concat (map (\<lambda>(y, m). month_parts y m) (covered_months startYear endYear))"

text \<open>The days of an interval, as ordinals (day 1 is 0001-01-01), both ends included.\<close>

definition interval_days :: "datetime \<times> datetime \<Rightarrow> int list" where
  "interval_days r = [toordinal (fst r) .. toordinal (snd r)]"

text \<open>
  Names used in the proofs only: the last part of \<open>ord2ymd\<close> (from the day of the year
  to month and day), the loop cursor at month number \<open>i\<close>, and the ordinal of its first
  day.
\<close>

definition doy2date :: "int \<Rightarrow> bool \<Rightarrow> int \<Rightarrow> datetime" where
  "doy2date y leapyear n =
     (let m = (n + 50) div 32;
          preceding = DAYS_BEFORE_MONTH ! nat m + (if m > 2 \<and> leapyear then 1 else 0)
      in if preceding > n
         then
           let m = m - 1;
               preceding = preceding - (DAYS_IN_MONTH ! nat m + (if m = 2 \<and> leapyear then 1 else 0))
           in \<lparr>year = y, month = m, day = n - preceding + 1\<rparr>
         else \<lparr>year = y, month = m, day = n - preceding + 1\<rparr>)"

definition month_cursor :: "int \<Rightarrow> datetime" where
  "month_cursor i = \<lparr>year = i div 12, month = i mod 12 + 1, day = 1\<rparr>"

definition month_first_ord :: "int \<Rightarrow> int" where
  "month_first_ord i = ymd2ord (i div 12) (i mod 12 + 1) 1"

section \<open>The remote archive, as \<^verbatim>\<open>retrieve_data\<close> sees it\<close>

text \<open>
  A decoded JSON document. A Python \<^verbatim>\<open>dict\<close> is its list of items (keys distinct, as
  \<^verbatim>\<open>json.loads\<close> leaves them); every number is a \<open>JNum\<close>, since none of the operations
  used here tells an \<^verbatim>\<open>int\<close> from a \<^verbatim>\<open>float\<close>.
\<close>

datatype json =
    JNull
  | JBool bool
  | JNum int
  | JStr string
  | JArr "json list"
  | JObj "(string \<times> json) list"

text \<open>
  What the code reads of a \<^verbatim>\<open>requests.Response\<close>: the status, \<^verbatim>\<open>response.text\<close>,
  \<^verbatim>\<open>response.json()\<close> (\<open>None\<close> when the body is not JSON and the call raises
  \<^verbatim>\<open>ValueError\<close>), the \<^verbatim>\<open>Location\<close> header, the \<^verbatim>\<open>content-length\<close> header as
  \<^verbatim>\<open>int(...)\<close> reads it (\<open>None\<close>: no header; \<open>Some None\<close>: a header \<^verbatim>\<open>int\<close> rejects with
  \<^verbatim>\<open>ValueError\<close>), and the body as \<^verbatim>\<open>iter_content(1024)\<close> yields it: the chunks
  delivered, then the exception that breaks the stream, if any. Whatever reads the
  whole body meets that exception: \<^verbatim>\<open>requests.get\<close> without \<^verbatim>\<open>stream=True\<close>, and
  \<^verbatim>\<open>text\<close> and \<^verbatim>\<open>json()\<close> of a streamed response.
\<close>

record response =
  status_code :: int
  body_text :: string
  json_body :: "json option"
  location :: "string option"
  content_length :: "int option option"
  chunks :: "string list"
  stream_error :: "exn option"

text \<open>
  A request: the \<^verbatim>\<open>POST\<close> of the search (URL, \<^verbatim>\<open>Authorization\<close> header, the
  \<^verbatim>\<open>datetime\<close> field of the payload; collection and query filters are constants of the
  source) or a \<^verbatim>\<open>GET\<close> (the URL as the code passes it on, which is whatever JSON value
  the search result holds; the \<^verbatim>\<open>Authorization\<close> header; the \<^verbatim>\<open>stream\<close> flag).
\<close>

datatype request =
    Post string string string
  | Get json string bool

text \<open>
  The archive answers a request of a task depending on the requests the task made
  before; \<open>Inl\<close> is an exception raised by \<^verbatim>\<open>requests\<close> itself (connection errors, a
  URL it cannot use, and for the search, whose body \<^verbatim>\<open>requests.post\<close> reads before
  it returns, a body that breaks).
\<close>

type_synonym net = "request list \<Rightarrow> request \<Rightarrow> exn + response"

type_synonym filesystem = "string \<rightharpoonup> string"

subsection \<open>The Python operations on the decoded document\<close>

fun str_contains :: "string \<Rightarrow> string \<Rightarrow> bool" where
  "str_contains s [] = (s = [])"
| "str_contains s (c # cs) = (take (length s) (c # cs) = s \<or> str_contains s cs)"

text \<open>\<^verbatim>\<open>key in x\<close>: dictionary key, list element, substring; other values are not iterable.\<close>

fun py_contains :: "string \<Rightarrow> json \<Rightarrow> exn + bool" where
  "py_contains k (JObj kvs) = Inr (k \<in> set (map fst kvs))"
| "py_contains k (JArr xs) = Inr (JStr k \<in> set xs)"
| "py_contains k (JStr s) = Inr (str_contains k s)"
| "py_contains k JNull = Inl TypeError"
| "py_contains k (JBool b) = Inl TypeError"
| "py_contains k (JNum n) = Inl TypeError"

text \<open>\<^verbatim>\<open>x[key]\<close> with a string key: a \<^verbatim>\<open>dict\<close> looks it up, everything else raises.\<close>

fun py_getitem :: "json \<Rightarrow> string \<Rightarrow> exn + json" where
  "py_getitem (JObj kvs) k = (case map_of kvs k of None \<Rightarrow> Inl KeyError | Some v \<Rightarrow> Inr v)"
| "py_getitem (JArr xs) k = Inl TypeError"
| "py_getitem (JStr s) k = Inl TypeError"
| "py_getitem JNull k = Inl TypeError"
| "py_getitem (JBool b) k = Inl TypeError"
| "py_getitem (JNum n) k = Inl TypeError"

fun py_len :: "json \<Rightarrow> exn + nat" where
  "py_len (JObj kvs) = Inr (length kvs)"
| "py_len (JArr xs) = Inr (length xs)"
| "py_len (JStr s) = Inr (length s)"
| "py_len JNull = Inl TypeError"
| "py_len (JBool b) = Inl TypeError"
| "py_len (JNum n) = Inl TypeError"

text \<open>\<^verbatim>\<open>x[0]\<close>: a JSON object has string keys only, so the key \<open>0\<close> is missing.\<close>

fun py_first :: "json \<Rightarrow> exn + json" where
  "py_first (JArr []) = Inl IndexError"
| "py_first (JArr (x # xs)) = Inr x"
| "py_first (JStr []) = Inl IndexError"
| "py_first (JStr (c # cs)) = Inr (JStr [c])"
| "py_first (JObj kvs) = Inl KeyError"
| "py_first JNull = Inl TypeError"
| "py_first (JBool b) = Inl TypeError"
| "py_first (JNum n) = Inl TypeError"

text \<open>\<^verbatim>\<open>response.raise_for_status()\<close> raises for the statuses 400 to 599.\<close>

definition raise_for_status :: "response \<Rightarrow> exn + unit" where
  "raise_for_status response =
     (if 400 \<le> status_code response \<and> status_code response < 600
      then Inl (HTTPError (status_code response)) else Inr ())"

subsection \<open>\<^verbatim>\<open>retrieve_data\<close>\<close>

text \<open>
  Prints and the progress bar are left out. \<^verbatim>\<open>f"Bearer {access_token}"\<close> formats the
  token that is \<^verbatim>\<open>None\<close> as the text \<^verbatim>\<open>None\<close>.
\<close>

definition auth_headers :: "string option \<Rightarrow> string" where
  "auth_headers access_token =
     ''Bearer '' @ (case access_token of None \<Rightarrow> ''None'' | Some t \<Rightarrow> t)"

definition search_url :: string where
  "search_url = ''https://hda.data.destination-earth.eu/stac/search''"

text \<open>
  From the search response to the product: \<open>Inr None\<close> is one of the early
  \<^verbatim>\<open>return\<close>s (status not 200, empty text, body that is not JSON, no or empty
  \<^verbatim>\<open>features\<close>), \<open>Inl\<close> an exception of the checks themselves.
\<close>

definition select_product :: "response \<Rightarrow> exn + json option" where
  "select_product response =
     (if status_code response \<noteq> 200 then Inr None
      else if body_text response = [] then Inr None
      else case json_body response of
             None \<Rightarrow> Inr None
           | Some search_results \<Rightarrow>
               (case py_contains ''features'' search_results of
                  Inl e \<Rightarrow> Inl e
                | Inr has_features \<Rightarrow>
                    if \<not> has_features then Inr None
                    else (case py_getitem search_results ''features'' of
                            Inl e \<Rightarrow> Inl e
                          | Inr features \<Rightarrow>
                              (case py_len features of
                                 Inl e \<Rightarrow> Inl e
                               | Inr n \<Rightarrow>
                                   if n = 0 then Inr None
                                   else (case py_first features of
                                           Inl e \<Rightarrow> Inl e
                                         | Inr product \<Rightarrow> Inr (Some product))))))"

text \<open>\<^verbatim>\<open>product["assets"]["downloadLink"]["href"]\<close>\<close>

definition download_link :: "json \<Rightarrow> exn + json" where
  "download_link product =
     (case py_getitem product ''assets'' of
        Inl e \<Rightarrow> Inl e
      | Inr assets \<Rightarrow>
          (case py_getitem assets ''downloadLink'' of
             Inl e \<Rightarrow> Inl e
           | Inr link \<Rightarrow> py_getitem link ''href''))"

text \<open>
  \<^verbatim>\<open>response.json()['status']\<close>. \<^verbatim>\<open>json()\<close> reads the body to its end, so on a
  streamed response whose body breaks it raises the exception of the stream.
\<close>

definition order_status :: "response \<Rightarrow> exn + json" where
  "order_status response =
     (case stream_error response of
        Some e \<Rightarrow> Inl e
      | None \<Rightarrow>
          (case json_body response of
             None \<Rightarrow> Inl ValueError
           | Some body \<Rightarrow> py_getitem body ''status''))"

text \<open>
  The polling loop \<^verbatim>\<open>while url := response.headers.get("Location")\<close>. It ends when the
  header is missing or empty; the source has no other exit than an exception. A loop
  that never ends is the value \<open>None\<close>. The result is the last response (or the
  exception) and the requests made so far.
\<close>

partial_function (option) poll ::
  "net \<Rightarrow> string \<Rightarrow> json \<Rightarrow> response \<Rightarrow> request list \<Rightarrow> ((exn + response) \<times> request list) option"
where
  "poll net auth old_status response log =
     (case location response of
        None \<Rightarrow> Some (Inr response, log)
      | Some url \<Rightarrow>
          if url = [] then Some (Inr response, log)
          else (case order_status response of
                  Inl e \<Rightarrow> Some (Inl e, log)
                | Inr status \<Rightarrow>
                    (case net log (Get (JStr url) auth True) of
                       Inl e \<Rightarrow> Some (Inl e, log @ [Get (JStr url) auth True])
                     | Inr response' \<Rightarrow>
                         poll net auth status response' (log @ [Get (JStr url) auth True]))))"

declare poll.simps [code]

text \<open>
  What follows the polling loop. For a status other than 200 and 202,
  \<^verbatim>\<open>print(response.text)\<close> reads the body to its end: on a streamed response whose
  body breaks, the exception of the stream is raised there. Then come the second
  \<^verbatim>\<open>raise_for_status\<close> and the \<^verbatim>\<open>content-length\<close>; after them
  \<^verbatim>\<open>open(filename, 'wb')\<close> creates or empties the file at the final path and every
  chunk is appended to it; an exception of the stream leaves what was written.
\<close>

fun write_chunks :: "string \<Rightarrow> string list \<Rightarrow> filesystem \<Rightarrow> filesystem" where
  "write_chunks filename [] fs = fs"
| "write_chunks filename (data # rest) fs =
     write_chunks filename rest
       (fs(filename \<mapsto> (case fs filename of None \<Rightarrow> data | Some written \<Rightarrow> written @ data)))"

definition stream_to_file :: "response \<Rightarrow> filesystem \<Rightarrow> string \<Rightarrow> (exn + unit) \<times> filesystem" where
  "stream_to_file response fs filename =
     (case (if status_code response \<noteq> 200 \<and> status_code response \<noteq> 202
            then stream_error response else None) of
        Some e \<Rightarrow> (Inl e, fs)
      | None \<Rightarrow>
          (case raise_for_status response of
             Inl e \<Rightarrow> (Inl e, fs)
           | Inr u \<Rightarrow>
               (case content_length response of
                  Some None \<Rightarrow> (Inl ValueError, fs)
                | _ \<Rightarrow>
                    (let fs' = write_chunks filename (chunks response) (fs(filename \<mapsto> []))
                     in case stream_error response of
                          None \<Rightarrow> (Inr (), fs')
                        | Some e \<Rightarrow> (Inl e, fs')))))"

text \<open>
  The whole task. The result is \<open>None\<close> when the polling loop never ends; otherwise the
  exception or the normal return (\<^verbatim>\<open>None\<close> in Python, also for the early returns), the
  file system afterwards and the requests made, in order.

  The request for the download link (\<^verbatim>\<open>requests.get(download_url, headers=auth_headers)\<close>)
  has no \<^verbatim>\<open>stream=True\<close>: \<^verbatim>\<open>requests\<close> reads the body to its end before the call
  returns, so a body that breaks raises in the call itself, before any file is opened,
  and iterating over the response later cannot fail. Only the follow-up requests of the
  polling loop are streamed; the body of the last of them is read by \<^verbatim>\<open>iter_content\<close>
  while the file is written.
\<close>

definition retrieve_data ::
  "net \<Rightarrow> string option \<Rightarrow> filesystem \<Rightarrow> string \<Rightarrow> string \<Rightarrow> string
     \<Rightarrow> ((exn + unit) \<times> filesystem \<times> request list) option"
where
  "retrieve_data net access_token fs start_date end_date output_file =
     (let auth = auth_headers access_token;
          search = Post search_url auth (start_date @ ''/'' @ end_date)
      in case net [] search of
           Inl e \<Rightarrow> Some (Inl e, fs, [search])
         | Inr response \<Rightarrow>
             (case select_product response of
                Inl e \<Rightarrow> Some (Inl e, fs, [search])
              | Inr None \<Rightarrow> Some (Inr (), fs, [search])
              | Inr (Some product) \<Rightarrow>
                  (case download_link product of
                     Inl e \<Rightarrow> Some (Inl e, fs, [search])
                   | Inr download_url \<Rightarrow>
                       (let order = Get download_url auth False
                        in case net [search] order of
                             Inl e \<Rightarrow> Some (Inl e, fs, [search, order])
                           | Inr response \<Rightarrow>
                               (case stream_error response of
                                  Some e \<Rightarrow> Some (Inl e, fs, [search, order])
                                | None \<Rightarrow>
                                    (let direct_download_url =
                                           (if status_code response = 200 then download_url
                                            else JStr [])
                                     in case raise_for_status response of
                                          Inl e \<Rightarrow> Some (Inl e, fs, [search, order])
                                        | Inr u \<Rightarrow>
                                            (case (if direct_download_url = JStr []
                                                   then poll net auth (JStr []) response
                                                          [search, order]
                                                   else Some (Inr response, [search, order])) of
                                               None \<Rightarrow> None
                                             | Some (Inl e, log) \<Rightarrow> Some (Inl e, fs, log)
                                             | Some (Inr response, log) \<Rightarrow>
                                                 (case stream_to_file response fs output_file of
                                                    (r, fs') \<Rightarrow> Some (r, fs', log)))))))))"

section \<open>\<^verbatim>\<open>retrieve_missing_data\<close>\<close>

text \<open>\<^verbatim>\<open>os.path.join(output_dir, name)\<close> on POSIX, and \<^verbatim>\<open>os.path.exists\<close>.\<close>

definition path_join :: "string \<Rightarrow> string \<Rightarrow> string" where
  "path_join a b =
     (if take 1 b = ''/'' then b
      else if a = [] \<or> last a = CHR ''/'' then a @ b
      else a @ ''/'' @ b)"

definition artifact_path :: "string \<Rightarrow> string \<Rightarrow> string" where
  "artifact_path output_dir start_date = path_join output_dir (start_date @ ''.nc'')"

definition path_exists :: "filesystem \<Rightarrow> string \<Rightarrow> bool" where
  "path_exists fs p \<longleftrightarrow> fs p \<noteq> None"

text \<open>
  The second loop submits one task for every range whose file does not exist when the
  range is looked at. A task writes the file of its own range only, so with distinct
  start dates the files that exist before the call decide what is submitted.
\<close>

definition pending_ranges :: "filesystem \<Rightarrow> string \<Rightarrow> (string \<times> string) list \<Rightarrow> (string \<times> string) list" where
  "pending_ranges fs output_dir date_ranges =
     filter (\<lambda>(start_date, end_date). \<not> path_exists fs (artifact_path output_dir start_date))
       date_ranges"

text \<open>
  The thread pool. Every submitted task runs, whatever the others do: leaving the
  \<^verbatim>\<open>with\<close> block waits for all of them, also when \<^verbatim>\<open>future.result()\<close> has raised.
  A task works on its own requests and writes its own file only, so the threads are
  modelled one after the other, in the order in which \<^verbatim>\<open>as_completed\<close> yields them;
  that order is a parameter, \<open>completion_order\<close>, which rearranges the submitted tasks.
  The result lists, per task in that order, the outcome and the requests made.
\<close>

fun run_tasks ::
  "net \<Rightarrow> string option \<Rightarrow> string \<Rightarrow> filesystem \<Rightarrow> (string \<times> string) list
     \<Rightarrow> ((exn + unit) list \<times> filesystem \<times> request list list) option"
where
  "run_tasks net access_token output_dir fs [] = Some ([], fs, [])"
| "run_tasks net access_token output_dir fs ((start_date, end_date) # rest) =
     (case retrieve_data net access_token fs start_date end_date
             (artifact_path output_dir start_date) of
        None \<Rightarrow> None
      | Some (r, fs1, log) \<Rightarrow>
          (case run_tasks net access_token output_dir fs1 rest of
             None \<Rightarrow> None
           | Some (rs, fs2, logs) \<Rightarrow> Some (r # rs, fs2, log # logs)))"

text \<open>
  \<^verbatim>\<open>for future in as_completed(futures): future.result()\<close> raises the exception of the
  first future, in completion order, whose task raised.
\<close>

fun first_exception :: "(exn + unit) list \<Rightarrow> exn option" where
  "first_exception [] = None"
| "first_exception (Inl e # rs) = Some e"
| "first_exception (Inr u # rs) = first_exception rs"

text \<open>
  \<^verbatim>\<open>ThreadPoolExecutor(max_workers=workers)\<close> raises \<^verbatim>\<open>ValueError\<close> for a width that is
  not positive.
\<close>

definition retrieve_missing_data ::
  "net \<Rightarrow> string option \<Rightarrow> ((string \<times> string) list \<Rightarrow> (string \<times> string) list) \<Rightarrow> filesystem
     \<Rightarrow> (string \<times> string) list \<Rightarrow> string \<Rightarrow> int
     \<Rightarrow> ((exn + string list) \<times> filesystem \<times> request list list) option"
where
  "retrieve_missing_data net access_token completion_order fs date_ranges output_dir workers =
     (let output_files =
            map (\<lambda>(start_date, end_date). artifact_path output_dir start_date) date_ranges
      in if workers \<le> 0 then Some (Inl ValueError, fs, [])
         else case run_tasks net access_token output_dir fs
                     (completion_order (pending_ranges fs output_dir date_ranges)) of
                None \<Rightarrow> None
              | Some (results, fs', logs) \<Rightarrow>
                  (case first_exception results of
                     Some e \<Rightarrow> Some (Inl e, fs', logs)
                   | None \<Rightarrow> Some (Inr output_files, fs', logs)))"

section \<open>\<^verbatim>\<open>merge_netcdf_files_xarray\<close>\<close>

text \<open>
  A dataset is its time coordinate, in file order; the data variables ride along with
  it. \<^verbatim>\<open>xr.open_dataset\<close> raises \<^verbatim>\<open>FileNotFoundError\<close> for a missing file and the
  exception of the backend for content it cannot read (\<open>decode\<close> stands for the
  backend). \<^verbatim>\<open>xr.concat(datasets, dim='time', data_vars='all', coords='all')\<close> joins
  the datasets along \<^verbatim>\<open>time\<close> in list order, without looking at the coordinate values,
  and raises \<^verbatim>\<open>ValueError\<close> for an empty list. \<^verbatim>\<open>to_netcdf\<close> writes the encoded result.
\<close>

type_synonym dataset = "int list"

definition open_dataset :: "(string \<Rightarrow> exn + dataset) \<Rightarrow> filesystem \<Rightarrow> string \<Rightarrow> exn + dataset" where
  "open_dataset decode fs file =
     (case fs file of
        None \<Rightarrow> Inl (FileNotFoundError file)
      | Some content \<Rightarrow> decode content)"

fun open_datasets :: "(string \<Rightarrow> exn + dataset) \<Rightarrow> filesystem \<Rightarrow> string list \<Rightarrow> exn + dataset list" where
  "open_datasets decode fs [] = Inr []"
| "open_datasets decode fs (file # files) =
     (case open_dataset decode fs file of
        Inl e \<Rightarrow> Inl e
      | Inr ds \<Rightarrow>
          (case open_datasets decode fs files of
             Inl e \<Rightarrow> Inl e
           | Inr dss \<Rightarrow> Inr (ds # dss)))"

definition xr_concat :: "dataset list \<Rightarrow> exn + dataset" where
  "xr_concat datasets = (if datasets = [] then Inl ValueError else Inr (concat datasets))"

definition merge_netcdf_files_xarray ::
  "(string \<Rightarrow> exn + dataset) \<Rightarrow> (dataset \<Rightarrow> string) \<Rightarrow> filesystem \<Rightarrow> string list \<Rightarrow> string
     \<Rightarrow> (exn + unit) \<times> filesystem"
where
  "merge_netcdf_files_xarray decode encode fs output_files merged_file =
     (case open_datasets decode fs output_files of
        Inl e \<Rightarrow> (Inl e, fs)
      | Inr datasets \<Rightarrow>
          (case xr_concat datasets of
             Inl e \<Rightarrow> (Inl e, fs)
           | Inr merged_dataset \<Rightarrow> (Inr (), fs(merged_file \<mapsto> encode merged_dataset))))"

section \<open>\<^verbatim>\<open>download_dataset\<close>\<close>

text \<open>
  The driver: the ranges, the retrieval into \<^verbatim>\<open>data/partial\<close> (the directory itself,
  made by \<^verbatim>\<open>os.makedirs\<close>, is not part of the flat file system), the merge into
  \<^verbatim>\<open>data/<filename>.nc\<close>. The timing prints are left out.
\<close>

definition download_dataset ::
  "net \<Rightarrow> string option \<Rightarrow> ((string \<times> string) list \<Rightarrow> (string \<times> string) list)
     \<Rightarrow> (string \<Rightarrow> exn + dataset) \<Rightarrow> (dataset \<Rightarrow> string) \<Rightarrow> filesystem
     \<Rightarrow> int \<Rightarrow> int \<Rightarrow> string \<Rightarrow> int
     \<Rightarrow> ((exn + unit) \<times> filesystem \<times> request list list) option"
where
  "download_dataset net access_token completion_order decode encode fs
       start_year end_year filename workers =
     (case generate_date_ranges start_year end_year of
        Inl e \<Rightarrow> Some (Inl e, fs, [])
      | Inr date_ranges \<Rightarrow>
          (case retrieve_missing_data net access_token completion_order fs date_ranges
                  ''data/partial'' workers of
             None \<Rightarrow> None
           | Some (Inl e, fs', logs) \<Rightarrow> Some (Inl e, fs', logs)
           | Some (Inr output_files, fs', logs) \<Rightarrow>
               (case merge_netcdf_files_xarray decode encode fs' output_files
                       (''data/'' @ filename @ ''.nc'') of
                  (r, fs'') \<Rightarrow> Some (r, fs'', logs))))"

section \<open>Names used in the claims, and example archives\<close>

text \<open>
  A response keeps the polling loop going when it has a non-empty \<^verbatim>\<open>Location\<close> header
  and a \<^verbatim>\<open>status\<close> the loop can read.
\<close>

definition pending :: "response \<Rightarrow> bool" where
  "pending r \<longleftrightarrow>
     (case location r of None \<Rightarrow> False | Some url \<Rightarrow> url \<noteq> []) \<and>
     (case order_status r of Inl e \<Rightarrow> False | Inr s \<Rightarrow> True)"

text \<open>The responses and archives below are the concrete inputs of the examples.\<close>

definition plain_response :: response where
  "plain_response =
     \<lparr>status_code = 200, body_text = ''{}'', json_body = Some (JObj []), location = None,
      content_length = None, chunks = [], stream_error = None\<rparr>"

definition example_product :: json where
  "example_product =
     JObj [(''assets'', JObj [(''downloadLink'',
       JObj [(''href'', JStr ''https://hda.example/download/1'')])])]"

definition search_hit :: response where
  "search_hit =
     plain_response\<lparr>json_body := Some (JObj [(''features'', JArr [example_product, JNull])])\<rparr>"

definition search_empty :: response where
  "search_empty = plain_response\<lparr>json_body := Some (JObj [(''features'', JArr [])])\<rparr>"

definition order_running :: response where
  "order_running =
     plain_response\<lparr>status_code := 202,
       json_body := Some (JObj [(''status'', JStr ''running'')]),
       location := Some ''https://hda.example/status/1''\<rparr>"

text \<open>Every search finds nothing.\<close>

definition archive_empty :: net where
  "archive_empty history req = Inr search_empty"

text \<open>Every request is answered with status 401.\<close>

definition archive_unauthorized :: net where
  "archive_unauthorized history req = Inr (plain_response\<lparr>status_code := 401\<rparr>)"

text \<open>The search finds a product; its order stays in processing for ever.\<close>

definition archive_pending :: net where
  "archive_pending history req =
     (case req of Post u a d \<Rightarrow> Inr search_hit | Get u a s \<Rightarrow> Inr order_running)"

text \<open>
  The order is accepted for processing; the streamed follow-up response is the data,
  and its stream breaks after the first chunk.
\<close>

definition archive_broken_stream :: net where
  "archive_broken_stream history req =
     (case req of
        Post u a d \<Rightarrow> Inr search_hit
      | Get u a streamed \<Rightarrow>
          if streamed
          then Inr (plain_response\<lparr>chunks := [''partial''],
                      stream_error := Some (RequestException ''ChunkedEncodingError'')\<rparr>)
          else Inr order_running)"

text \<open>
  The body of the download link response itself breaks after the first chunk, while
  \<^verbatim>\<open>requests.get\<close> reads it.
\<close>

definition archive_broken_body :: net where
  "archive_broken_body history req =
     (case req of
        Post u a d \<Rightarrow> Inr search_hit
      | Get u a streamed \<Rightarrow>
          Inr (plain_response\<lparr>chunks := [''partial''],
                 stream_error := Some (RequestException ''ChunkedEncodingError'')\<rparr>))"

text \<open>
  The first two thirds of January 2021 fail with the statuses 500 and 503; every other
  interval downloads.
\<close>

definition archive_two_failures :: net where
  "archive_two_failures history req =
     (case req of
        Post u a d \<Rightarrow> Inr search_hit
      | Get u a s \<Rightarrow>
          (case history of
             [Post u' a' d] \<Rightarrow>
               if d = ''2021-01-01/2021-01-10'' then Inr (plain_response\<lparr>status_code := 500\<rparr>)
               else if d = ''2021-01-11/2021-01-20'' then Inr (plain_response\<lparr>status_code := 503\<rparr>)
               else Inr (plain_response\<lparr>chunks := [''data'']\<rparr>)
           | _ \<Rightarrow> Inr (plain_response\<lparr>chunks := [''data'']\<rparr>)))"

text \<open>Every interval downloads.\<close>

definition archive_ok :: net where
  "archive_ok history req =
     (case req of
        Post u a d \<Rightarrow> Inr search_hit
      | Get u a s \<Rightarrow> Inr (plain_response\<lparr>chunks := [''data'']\<rparr>))"

text \<open>
  An example backend: a file holds its time coordinate as one character per value;
  the content \<^verbatim>\<open>corrupt\<close> cannot be read.
\<close>

definition example_decode :: "string \<Rightarrow> exn + dataset" where
  "example_decode content =
     (if content = ''corrupt'' then Inl ValueError
      else Inr (map (\<lambda>c. int (of_char c :: nat)) content))"

definition example_encode :: "dataset \<Rightarrow> string" where
  "example_encode ds = map (\<lambda>t. char_of (nat t)) ds"

text \<open>
  The three date ranges of January 2021, as \<^verbatim>\<open>generate_date_ranges(2021, 2021)\<close>
  returns them.
\<close>

definition january_2021 :: "(string \<times> string) list" where
  "january_2021 =
     [(''2021-01-01'', ''2021-01-10''), (''2021-01-11'', ''2021-01-20''),
      (''2021-01-21'', ''2021-01-31'')]"

section \<open>Calendar and loop lemmas\<close>

lemma ord2ymd_chain:
  assumes "n div 146097 = a" "n mod 146097 = r1" "r1 div 36524 = b" "r1 mod 36524 = r2"
    "r2 div 1461 = c" "r2 mod 1461 = r3" "r3 div 365 = e" "r3 mod 365 = k"
  shows "ord2ymd (n + 1) =
    (if e = 4 \<or> b = 4 then \<lparr>year = a * 400 + 1 + (b * 100 + c * 4 + e) - 1, month = 12, day = 31\<rparr>
     else doy2date (a * 400 + 1 + (b * 100 + c * 4 + e)) (e = 3 \<and> (c \<noteq> 24 \<or> b = 3)) k)"
  by (simp only: ord2ymd_def Let_def DI400Y_def DI100Y_def DI4Y_def add_diff_cancel_right' assms doy2date_def)

lemma doy2date_fixed:
  assumes "0 \<le> n - p" "n - p < l"
    and "(n + 50) div 32 = m \<or>
         ((n + 50) div 32 = m + 1 \<and>
          DAYS_BEFORE_MONTH ! nat (m + 1) + (if m + 1 > 2 \<and> lp then 1 else 0) = p + l)"
    and "DAYS_BEFORE_MONTH ! nat m + (if m > 2 \<and> lp then 1 else 0) = p"
    and "DAYS_IN_MONTH ! nat m + (if m = 2 \<and> lp then 1 else 0) = l"
  shows "doy2date y lp n = \<lparr>year = y, month = m, day = n - p + 1\<rparr>"
  using assms(3)
proof
  assume "(n + 50) div 32 = m"
  with assms(1,2,4) show ?thesis by (simp add: doy2date_def Let_def)
next
  assume "(n + 50) div 32 = m + 1 \<and>
          DAYS_BEFORE_MONTH ! nat (m + 1) + (if m + 1 > 2 \<and> lp then 1 else 0) = p + l"
  with assms(1,2,5) show ?thesis by (simp add: doy2date_def Let_def)
qed

lemma divmod_int:
  fixes b q r :: int
  assumes "0 \<le> r" "r < b"
  shows "(b * q + r) div b = q" "(b * q + r) mod b = r"
  using assms by (auto intro: int_div_pos_eq int_mod_pos_eq)

lemma dby_decomp:
  assumes "0 \<le> b" "b < 4" "0 \<le> c" "c < 25" "0 \<le> e" "e < 4"
  shows "days_before_year (400 * a + 100 * b + 4 * c + e + 1) = 146097 * a + 36524 * b + 1461 * c + 365 * e"
proof -
  let ?Y = "400 * a + 100 * b + 4 * c + e"
  have d4: "?Y div 4 = 100 * a + 25 * b + c"
    using assms by (intro int_div_pos_eq[where r = e]) auto
  have d100: "?Y div 100 = 4 * a + b"
    using assms  by (intro int_div_pos_eq[where r = "4 * c + e"]) auto
  have d400: "?Y div 400 = a"
    using assms  by (intro int_div_pos_eq[where r = "100 * b + 4 * c + e"]) auto
  show ?thesis unfolding days_before_year_def Let_def using d4 d100 d400 by simp
qed

lemma month_cases:
  fixes m :: int
  assumes "1 \<le> m" "m \<le> 12"
  shows "m = 1 \<or> m = 2 \<or> m = 3 \<or> m = 4 \<or> m = 5 \<or> m = 6 \<or> m = 7 \<or> m = 8 \<or> m = 9 \<or> m = 10 \<or> m = 11 \<or> m = 12"
  using assms by arith

lemma doy2date_month:
  assumes "1 \<le> m" "m \<le> 12" "1 \<le> d" "d \<le> (if m = 2 \<and> lp then 29 else DAYS_IN_MONTH ! nat m)"
  shows "doy2date y lp (DAYS_BEFORE_MONTH ! nat m + (if m > 2 \<and> lp then 1 else 0) + d - 1)
         = \<lparr>year = y, month = m, day = d\<rparr>"
  using month_cases[OF assms(1,2)] assms(3,4)
  apply (elim disjE)
  subgoal by (cases lp; simp add: DAYS_IN_MONTH_def DAYS_BEFORE_MONTH_def; subst doy2date_fixed[where m = 1 and l = 31 and p = 0]; simp add: DAYS_IN_MONTH_def DAYS_BEFORE_MONTH_def; arith?)
  subgoal by (cases lp; simp add: DAYS_IN_MONTH_def DAYS_BEFORE_MONTH_def; subst doy2date_fixed[where m = 2 and l = "if lp then 29 else 28" and p = 31]; simp add: DAYS_IN_MONTH_def DAYS_BEFORE_MONTH_def; arith?)
  subgoal by (cases lp; simp add: DAYS_IN_MONTH_def DAYS_BEFORE_MONTH_def; subst doy2date_fixed[where m = 3 and l = 31 and p = "if lp then 60 else 59"]; simp add: DAYS_IN_MONTH_def DAYS_BEFORE_MONTH_def; arith?)
  subgoal by (cases lp; simp add: DAYS_IN_MONTH_def DAYS_BEFORE_MONTH_def; subst doy2date_fixed[where m = 4 and l = 30 and p = "if lp then 91 else 90"]; simp add: DAYS_IN_MONTH_def DAYS_BEFORE_MONTH_def; arith?)
  subgoal by (cases lp; simp add: DAYS_IN_MONTH_def DAYS_BEFORE_MONTH_def; subst doy2date_fixed[where m = 5 and l = 31 and p = "if lp then 121 else 120"]; simp add: DAYS_IN_MONTH_def DAYS_BEFORE_MONTH_def; arith?)
  subgoal by (cases lp; simp add: DAYS_IN_MONTH_def DAYS_BEFORE_MONTH_def; subst doy2date_fixed[where m = 6 and l = 30 and p = "if lp then 152 else 151"]; simp add: DAYS_IN_MONTH_def DAYS_BEFORE_MONTH_def; arith?)
  subgoal by (cases lp; simp add: DAYS_IN_MONTH_def DAYS_BEFORE_MONTH_def; subst doy2date_fixed[where m = 7 and l = 31 and p = "if lp then 182 else 181"]; simp add: DAYS_IN_MONTH_def DAYS_BEFORE_MONTH_def; arith?)
  subgoal by (cases lp; simp add: DAYS_IN_MONTH_def DAYS_BEFORE_MONTH_def; subst doy2date_fixed[where m = 8 and l = 31 and p = "if lp then 213 else 212"]; simp add: DAYS_IN_MONTH_def DAYS_BEFORE_MONTH_def; arith?)
  subgoal by (cases lp; simp add: DAYS_IN_MONTH_def DAYS_BEFORE_MONTH_def; subst doy2date_fixed[where m = 9 and l = 30 and p = "if lp then 244 else 243"]; simp add: DAYS_IN_MONTH_def DAYS_BEFORE_MONTH_def; arith?)
  subgoal by (cases lp; simp add: DAYS_IN_MONTH_def DAYS_BEFORE_MONTH_def; subst doy2date_fixed[where m = 10 and l = 31 and p = "if lp then 274 else 273"]; simp add: DAYS_IN_MONTH_def DAYS_BEFORE_MONTH_def; arith?)
  subgoal by (cases lp; simp add: DAYS_IN_MONTH_def DAYS_BEFORE_MONTH_def; subst doy2date_fixed[where m = 11 and l = 30 and p = "if lp then 305 else 304"]; simp add: DAYS_IN_MONTH_def DAYS_BEFORE_MONTH_def; arith?)
  subgoal by (cases lp; simp add: DAYS_IN_MONTH_def DAYS_BEFORE_MONTH_def; subst doy2date_fixed[where m = 12 and l = 31 and p = "if lp then 335 else 334"]; simp add: DAYS_IN_MONTH_def DAYS_BEFORE_MONTH_def; arith?)
  done

lemma year_decomp:
  fixes y :: int
  obtains a b c e where "y = 400 * a + 100 * b + 4 * c + e + 1"
    "0 \<le> b" "b < 4" "0 \<le> c" "c < 25" "0 \<le> e" "e < 4"
proof -
  define a where "a = (y - 1) div 400"
  define r where "r = (y - 1) mod 400"
  define b where "b = r div 100"
  define s where "s = r mod 100"
  define c where "c = s div 4"
  define e where "e = s mod 4"
  have 1: "y - 1 = 400 * a + r" by (simp add: a_def r_def)
  have 2: "r = 100 * b + s" by (simp add: b_def s_def)
  have 3: "s = 4 * c + e" by (simp add: c_def e_def)
  have r: "0 \<le> r" "r < 400" by (simp_all add: r_def)
  have s: "0 \<le> s" "s < 100" by (simp_all add: s_def)
  have "0 \<le> b" "b < 4" using r by (simp_all add: b_def)
  moreover have "0 \<le> c" "c < 25" using s by (simp_all add: c_def)
  moreover have "0 \<le> e" "e < 4" by (simp_all add: e_def)
  moreover have "y = 400 * a + 100 * b + 4 * c + e + 1" using 1 2 3 by simp
  ultimately show thesis using that by blast
qed

lemma is_leap_decomp:
  assumes "0 \<le> b" "b < 4" "0 \<le> c" "c < 25" "0 \<le> e" "e < 4"
  shows "is_leap (400 * a + 100 * b + 4 * c + e + 1) \<longleftrightarrow> e = 3 \<and> (c \<noteq> 24 \<or> b = 3)"
proof -
  let ?y = "400 * a + 100 * b + 4 * c + e + 1"
  have "?y = 4 * (100 * a + 25 * b + c) + (e + 1)" by simp
  then have m4: "?y mod 4 = (e + 1) mod 4" by (simp only: mod_mult_self4)
  have "?y = 100 * (4 * a + b) + (4 * c + e + 1)" by simp
  then have m100: "?y mod 100 = (4 * c + e + 1) mod 100" by (simp only: mod_mult_self4)
  have "?y = 400 * a + (100 * b + 4 * c + e + 1)" by simp
  then have m400: "?y mod 400 = (100 * b + 4 * c + e + 1) mod 400" by (simp only: mod_mult_self4)
  have a4: "(e + 1) mod 4 = 0 \<longleftrightarrow> e = 3" using assms(5,6) by arith
  have a100: "(4 * c + e + 1) mod 100 = 0 \<longleftrightarrow> c = 24 \<and> e = 3"
  proof
    assume h: "(4 * c + e + 1) mod 100 = 0"
    have "4 * c + e + 1 > 0" "4 * c + e + 1 \<le> 100" using assms by arith+
    with h have "4 * c + e + 1 = 100"
      by (metis mod_pos_pos_trivial less_le not_less zero_less_one order.strict_implies_order less_irrefl)
    with assms show "c = 24 \<and> e = 3" by arith
  qed simp
  have a400: "(100 * b + 4 * c + e + 1) mod 400 = 0 \<longleftrightarrow> b = 3 \<and> c = 24 \<and> e = 3"
  proof
    assume h: "(100 * b + 4 * c + e + 1) mod 400 = 0"
    have "100 * b + 4 * c + e + 1 > 0" "100 * b + 4 * c + e + 1 \<le> 400" using assms by arith+
    with h have "100 * b + 4 * c + e + 1 = 400"
      by (metis mod_pos_pos_trivial less_le not_less zero_less_one order.strict_implies_order less_irrefl)
    with assms show "b = 3 \<and> c = 24 \<and> e = 3" by arith
  qed simp
  show ?thesis unfolding is_leap_def m4 m100 m400 a4 a100 a400 by auto
qed

lemma doy_bounds:
  assumes "1 \<le> m" "m \<le> 12" "1 \<le> d" "d \<le> cal_days_in_month y m"
  shows "0 \<le> cal_days_before_month y m + d - 1"
    and "cal_days_before_month y m + d - 1 < (if is_leap y then 366 else 365)"
    and "cal_days_before_month y m + d - 1 = 365 \<Longrightarrow> m = 12 \<and> d = 31"
  using month_cases[OF assms(1,2)] assms(3,4)
  by (auto simp: cal_days_before_month_def cal_days_in_month_def DAYS_IN_MONTH_def DAYS_BEFORE_MONTH_def
      split: if_splits)

lemma ord2ymd_ymd2ord:
  assumes "1 \<le> m" "m \<le> 12" "1 \<le> d" "d \<le> cal_days_in_month y m"
  shows "ord2ymd (ymd2ord y m d) = \<lparr>year = y, month = m, day = d\<rparr>"
proof -
  obtain a b c e where y: "y = 400 * a + 100 * b + 4 * c + e + 1"
    and bd: "0 \<le> b" "b < 4" "0 \<le> c" "c < 25" "0 \<le> e" "e < 4"
    by (rule year_decomp)
  define lp where "lp = (e = 3 \<and> (c \<noteq> 24 \<or> b = 3))"
  have leap: "is_leap y = lp" unfolding y lp_def by (rule is_leap_decomp[OF bd])
  define k where "k = cal_days_before_month y m + d - 1"
  have k0: "0 \<le> k" and k1: "k < (if lp then 366 else 365)" and k365: "k = 365 \<Longrightarrow> m = 12 \<and> d = 31"
    using doy_bounds[OF assms] unfolding k_def leap by auto
  define n where "n = 146097 * a + (36524 * b + (1461 * c + (365 * e + k)))"
  have ord: "ymd2ord y m d = n + 1"
    unfolding ymd2ord_def n_def k_def y dby_decomp[OF bd] by simp
  show ?thesis
  proof (cases "k = 365")
    case False
    with k1 have k364: "k < 365" by (simp split: if_splits)
    have c1: "n div 146097 = a" "n mod 146097 = 36524 * b + (1461 * c + (365 * e + k))"
      unfolding n_def using bd k0 k364 by (intro divmod_int; simp)+
    have c2: "(36524 * b + (1461 * c + (365 * e + k))) div 36524 = b"
      "(36524 * b + (1461 * c + (365 * e + k))) mod 36524 = 1461 * c + (365 * e + k)"
      using bd k0 k364 by (intro divmod_int; simp)+
    have c3: "(1461 * c + (365 * e + k)) div 1461 = c" "(1461 * c + (365 * e + k)) mod 1461 = 365 * e + k"
      using bd k0 k364 by (intro divmod_int; simp)+
    have c4: "(365 * e + k) div 365 = e" "(365 * e + k) mod 365 = k"
      using bd k0 k364 by (intro divmod_int; simp)+
    have "ord2ymd (n + 1) = doy2date (a * 400 + 1 + (b * 100 + c * 4 + e)) lp k"
      using ord2ymd_chain[OF c1 c2 c3 c4] bd unfolding lp_def by simp
    also have "a * 400 + 1 + (b * 100 + c * 4 + e) = y" unfolding y by simp
    also have "doy2date y lp k = \<lparr>year = y, month = m, day = d\<rparr>"
      unfolding k_def cal_days_before_month_def leap
      using assms unfolding cal_days_in_month_def leap by (intro doy2date_month; simp)
    finally show ?thesis unfolding ord .
  next
    case True
    with k1 have lp: lp by (simp split: if_splits)
    from True k365 have md: "m = 12" "d = 31" by simp_all
    from lp have e3: "e = 3" and cb: "c \<noteq> 24 \<or> b = 3" unfolding lp_def by simp_all
    show ?thesis
    proof (cases "c = 24")
      case c24: True
      with cb have b3: "b = 3" by simp
      have n: "n = 146097 * a + 146096" unfolding n_def True e3 c24 b3 by simp
      have c1: "n div 146097 = a" "n mod 146097 = 146096"
        unfolding n by (intro divmod_int; simp)+
      have c2: "(146096::int) div 36524 = 4" "(146096::int) mod 36524 = 0" by simp_all
      have c3: "(0::int) div 1461 = 0" "(0::int) mod 1461 = 0" by simp_all
      have c4: "(0::int) div 365 = 0" "(0::int) mod 365 = 0" by simp_all
      have "ord2ymd (n + 1) = \<lparr>year = a * 400 + 1 + (4 * 100 + 0 * 4 + 0) - 1, month = 12, day = 31\<rparr>"
        using ord2ymd_chain[OF c1 c2 c3 c4] by simp
      then have "ord2ymd (ymd2ord y m d) = \<lparr>year = a * 400 + 1 + (4 * 100 + 0 * 4 + 0) - 1, month = 12, day = 31\<rparr>"
        unfolding ord .
      also have "a * 400 + 1 + (4 * 100 + 0 * 4 + 0) - 1 = y" unfolding y e3 c24 b3 by simp
      finally show ?thesis unfolding md .
    next
      case c23: False
      with bd have c23': "c < 24" by simp
      have n: "n = 146097 * a + (36524 * b + (1461 * c + 1460))" unfolding n_def True e3 by simp
      have c1: "n div 146097 = a" "n mod 146097 = 36524 * b + (1461 * c + 1460)"
        unfolding n using bd c23' by (intro divmod_int; simp)+
      have c2: "(36524 * b + (1461 * c + 1460)) div 36524 = b"
        "(36524 * b + (1461 * c + 1460)) mod 36524 = 1461 * c + 1460"
        using bd c23' by (intro divmod_int; simp)+
      have c3: "(1461 * c + 1460) div 1461 = c" "(1461 * c + 1460) mod 1461 = 1460"
        using bd by (intro divmod_int; simp)+
      have c4: "(1460::int) div 365 = 4" "(1460::int) mod 365 = 0" by simp_all
      have "ord2ymd (n + 1) = \<lparr>year = a * 400 + 1 + (b * 100 + c * 4 + 4) - 1, month = 12, day = 31\<rparr>"
        using ord2ymd_chain[OF c1 c2 c3 c4] by simp
      then have "ord2ymd (ymd2ord y m d) = \<lparr>year = a * 400 + 1 + (b * 100 + c * 4 + 4) - 1, month = 12, day = 31\<rparr>"
        unfolding ord .
      also have "a * 400 + 1 + (b * 100 + c * 4 + 4) - 1 = y" unfolding y e3 by simp
      finally show ?thesis unfolding md .
    qed
  qed
qed

lemma dim_range:
  assumes "1 \<le> m" "m \<le> 12"
  shows "28 \<le> cal_days_in_month y m" "cal_days_in_month y m \<le> 31"
  using month_cases[OF assms]
  by (auto simp: cal_days_in_month_def DAYS_IN_MONTH_def)

lemma dbm_succ:
  assumes "1 \<le> m" "m < 12"
  shows "cal_days_before_month y (m + 1) = cal_days_before_month y m + cal_days_in_month y m"
proof -
  from assms have "m = 1 \<or> m = 2 \<or> m = 3 \<or> m = 4 \<or> m = 5 \<or> m = 6 \<or> m = 7 \<or> m = 8 \<or> m = 9 \<or> m = 10 \<or> m = 11"
    by arith
  then show ?thesis
    by (auto simp: cal_days_in_month_def cal_days_before_month_def DAYS_IN_MONTH_def DAYS_BEFORE_MONTH_def)
qed

lemma dbm_dec:
  "cal_days_before_month y 12 + 31 = (if is_leap y then 366 else 365)"
  by (simp add: cal_days_before_month_def DAYS_BEFORE_MONTH_def)

lemma dbm_jan: "cal_days_before_month y 1 = 0"
  by (simp add: cal_days_before_month_def DAYS_BEFORE_MONTH_def)

lemma div_pred:
  fixes y k :: int
  assumes "0 < k"
  shows "y div k = (y - 1) div k + (if y mod k = 0 then 1 else 0)"
proof (cases "y mod k = 0")
  case True
  then have "k dvd y" by (simp add: mod_eq_0_iff_dvd)
  then have "k * (y div k) = y" by simp
  then have "y - 1 = k * (y div k - 1) + (k - 1)"
    by (simp add: algebra_simps)
  then have "(y - 1) div k = y div k - 1"
    using assms by (intro int_div_pos_eq[where r = "k - 1"]) auto
  with True show ?thesis by simp
next
  case False
  have r: "0 < y mod k" "y mod k < k"
    using False pos_mod_sign[OF assms, of y] pos_mod_bound[OF assms, of y] by auto
  have "y - 1 = k * (y div k) + (y mod k - 1)" by simp
  then have "(y - 1) div k = y div k"
    using r by (intro int_div_pos_eq[where r = "y mod k - 1"]) auto
  with False show ?thesis by simp
qed

lemma leap_count:
  fixes y A B C :: int
  assumes "p400 \<Longrightarrow> p100" "p100 \<Longrightarrow> p4"
  shows "y * 365 + (A + (if p4 then 1 else 0)) - (B + (if p100 then 1 else 0))
           + (C + (if p400 then 1 else 0))
         = (y - 1) * 365 + A - B + C + (if p4 \<and> (\<not> p100 \<or> p400) then 366 else 365)"
  using assms by (cases p4; cases p100; cases p400; simp add: algebra_simps)

lemma dby_succ: "days_before_year (y + 1) = days_before_year y + (if is_leap y then 366 else 365)"
proof -
  have 4: "y div 4 = (y - 1) div 4 + (if y mod 4 = 0 then 1 else 0)" by (rule div_pred) simp
  have 100: "y div 100 = (y - 1) div 100 + (if y mod 100 = 0 then 1 else 0)" by (rule div_pred) simp
  have 400: "y div 400 = (y - 1) div 400 + (if y mod 400 = 0 then 1 else 0)" by (rule div_pred) simp
  have m1: "y mod 100 = 0" if "y mod 400 = 0"
  proof -
    from that have "400 dvd y" by (simp add: dvd_eq_mod_eq_0)
    moreover have "(100::int) dvd 400" by simp
    ultimately have "100 dvd y" by (rule dvd_trans[rotated])
    then show ?thesis by simp
  qed
  have m2: "y mod 4 = 0" if "y mod 100 = 0"
  proof -
    from that have "100 dvd y" by (simp add: dvd_eq_mod_eq_0)
    moreover have "(4::int) dvd 100" by simp
    ultimately have "4 dvd y" by (rule dvd_trans[rotated])
    then show ?thesis by simp
  qed
  have "days_before_year (y + 1) = y * 365 + y div 4 - y div 100 + y div 400"
    by (simp only: days_before_year_def Let_def add_diff_cancel_right')
  also have "\<dots> = y * 365 + ((y - 1) div 4 + (if y mod 4 = 0 then 1 else 0))
      - ((y - 1) div 100 + (if y mod 100 = 0 then 1 else 0))
      + ((y - 1) div 400 + (if y mod 400 = 0 then 1 else 0))"
    by (simp only: 4[symmetric] 100[symmetric] 400[symmetric])
  also have "\<dots> = (y - 1) * 365 + (y - 1) div 4 - (y - 1) div 100 + (y - 1) div 400
      + (if y mod 4 = 0 \<and> (\<not> y mod 100 = 0 \<or> y mod 400 = 0) then 366 else 365)"
    by (rule leap_count[OF m1 m2])
  also have "\<dots> = days_before_year y + (if is_leap y then 366 else 365)"
    by (simp only: days_before_year_def Let_def is_leap_def)
  finally show ?thesis .
qed

lemma dby_mono_nat: "days_before_year y \<le> days_before_year (y + int n)"
proof (induction n)
  case 0
  show ?case by simp
next
  case (Suc n)
  have "days_before_year (y + int (Suc n)) = days_before_year ((y + int n) + 1)"
    by (simp add: algebra_simps)
  also have "\<dots> = days_before_year (y + int n) + (if is_leap (y + int n) then 366 else 365)"
    by (rule dby_succ)
  finally show ?case using Suc by (simp split: if_splits)
qed

lemma dby_mono:
  assumes "y \<le> y'"
  shows "days_before_year y \<le> days_before_year y'"
proof -
  from assms have "y' = y + int (nat (y' - y))" by simp
  then show ?thesis using dby_mono_nat[of y "nat (y' - y)"] by simp
qed

lemma dby_1: "days_before_year 1 = 0"
  by (simp add: days_before_year_def)

lemma dby_10000: "days_before_year 10000 = 3652059"
  by (simp add: days_before_year_def)

lemma ymd2ord_range:
  assumes "MINYEAR \<le> y" "y \<le> MAXYEAR" "1 \<le> m" "m \<le> 12" "1 \<le> d" "d \<le> cal_days_in_month y m"
  shows "0 < ymd2ord y m d" "ymd2ord y m d \<le> MAXORDINAL"
proof -
  have lo: "0 \<le> days_before_year y"
    using dby_mono[of 1 y] assms(1) by (simp add: dby_1 MINYEAR_def)
  have "days_before_year (y + 1) \<le> days_before_year 10000"
    using assms(2) by (intro dby_mono) (simp add: MAXYEAR_def)
  then have hi: "days_before_year y + (if is_leap y then 366 else 365) \<le> 3652059"
    by (simp only: dby_succ dby_10000)
  from doy_bounds(1,2)[OF assms(3-6)] lo hi
  show "0 < ymd2ord y m d" "ymd2ord y m d \<le> MAXORDINAL"
    by (simp_all add: ymd2ord_def MAXORDINAL_def split: if_splits)
qed

lemma add_days_same_month:
  assumes "MINYEAR \<le> y" "y \<le> MAXYEAR" "1 \<le> m" "m \<le> 12" "1 \<le> d + k" "d + k \<le> cal_days_in_month y m"
  shows "add_days \<lparr>year = y, month = m, day = d\<rparr> k = Inr \<lparr>year = y, month = m, day = d + k\<rparr>"
proof -
  have "toordinal \<lparr>year = y, month = m, day = d\<rparr> + k = ymd2ord y m (d + k)"
    by (simp add: toordinal_def ymd2ord_def)
  with ymd2ord_range[OF assms] ord2ymd_ymd2ord[OF assms(3-6)]
  show ?thesis by (simp add: add_days_def Let_def)
qed

lemma end_of_month_of_first:
  assumes "MINYEAR \<le> y" "y \<le> MAXYEAR" "1 \<le> m" "m \<le> 12"
  shows "end_of_month_of \<lparr>year = y, month = m, day = 1\<rparr>
         = Inr \<lparr>year = y, month = m, day = cal_days_in_month y m\<rparr>"
proof (cases "m = 12")
  case True
  with assms show ?thesis
    by (simp add: end_of_month_of_def replace_def check_date_fields_def cal_days_in_month_def
        DAYS_IN_MONTH_def)
next
  case False
  with assms have m: "1 \<le> m + 1" "m + 1 \<le> 12" "m < 12" by simp_all
  have r: "replace \<lparr>year = y, month = m, day = 1\<rparr> None (Some (m + 1)) (Some 1)
           = Inr \<lparr>year = y, month = m + 1, day = 1\<rparr>"
    using assms m dim_range[OF m(1,2), of y]
    by (simp add: replace_def check_date_fields_def)
  have d: "1 \<le> cal_days_in_month y m" using dim_range[OF assms(3,4), of y] by simp
  have o: "toordinal \<lparr>year = y, month = m + 1, day = 1\<rparr> + - 1 = ymd2ord y m (cal_days_in_month y m)"
    using dbm_succ[OF assms(3) m(3), of y] by (simp add: toordinal_def ymd2ord_def)
  have "sub_days \<lparr>year = y, month = m + 1, day = 1\<rparr> 1
        = Inr \<lparr>year = y, month = m, day = cal_days_in_month y m\<rparr>"
    using ymd2ord_range[OF assms d order_refl] ord2ymd_ymd2ord[OF assms(3,4) d order_refl]
    unfolding sub_days_def add_days_def Let_def o by simp
  with r False show ?thesis by (simp add: end_of_month_of_def)
qed

lemma month_ranges_first:
  assumes "MINYEAR \<le> y" "y \<le> MAXYEAR" "1 \<le> m" "m \<le> 12"
  shows "month_ranges \<lparr>year = y, month = m, day = 1\<rparr> = Inr (month_parts y m)"
proof -
  define dim where "dim = cal_days_in_month y m"
  define p where "p = dim div 3"
  have dim: "28 \<le> dim" "dim \<le> 31" using dim_range[OF assms(3,4), of y] by (simp_all add: dim_def)
  then have p: "9 \<le> p" "3 * p \<le> dim" unfolding p_def by arith+
  have db: "days_between \<lparr>year = y, month = m, day = dim\<rparr> \<lparr>year = y, month = m, day = 1\<rparr> + 1 = dim"
    by (simp add: days_between_def toordinal_def ymd2ord_def)
  have a1: "add_days \<lparr>year = y, month = m, day = 1\<rparr> (p - 1) = Inr \<lparr>year = y, month = m, day = p\<rparr>"
    using add_days_same_month[OF assms, of 1 "p - 1"] p dim by (simp add: dim_def[symmetric])
  have a2: "add_days \<lparr>year = y, month = m, day = p\<rparr> 1 = Inr \<lparr>year = y, month = m, day = p + 1\<rparr>"
    using add_days_same_month[OF assms, of p 1] p dim by (simp add: dim_def[symmetric])
  have a3: "add_days \<lparr>year = y, month = m, day = p + 1\<rparr> (p - 1) = Inr \<lparr>year = y, month = m, day = 2 * p\<rparr>"
    using add_days_same_month[OF assms, of "p + 1" "p - 1"] p dim by (simp add: dim_def[symmetric])
  have a4: "add_days \<lparr>year = y, month = m, day = 2 * p\<rparr> 1 = Inr \<lparr>year = y, month = m, day = 2 * p + 1\<rparr>"
    using add_days_same_month[OF assms, of "2 * p" 1] p dim by (simp add: dim_def[symmetric])
  have "month_ranges \<lparr>year = y, month = m, day = 1\<rparr>
        = Inr [(\<lparr>year = y, month = m, day = 1\<rparr>, \<lparr>year = y, month = m, day = p\<rparr>),
               (\<lparr>year = y, month = m, day = p + 1\<rparr>, \<lparr>year = y, month = m, day = 2 * p\<rparr>),
               (\<lparr>year = y, month = m, day = 2 * p + 1\<rparr>, \<lparr>year = y, month = m, day = dim\<rparr>)]"
    by (simp only: month_ranges_def end_of_month_of_first[OF assms] dim_def[symmetric] sum.case
        Let_def db p_def[symmetric] a1 a2 a3 a4)
  also have "\<dots> = Inr (month_parts y m)"
    by (simp add: month_parts_def Let_def dim_def[symmetric] p_def[symmetric])
  finally show ?thesis .
qed

lemma month_index_succ:
  fixes i :: int
  shows "i mod 12 = 11 \<Longrightarrow> (i + 1) div 12 = i div 12 + 1 \<and> (i + 1) mod 12 = 0"
    and "i mod 12 \<noteq> 11 \<Longrightarrow> (i + 1) div 12 = i div 12 \<and> (i + 1) mod 12 = i mod 12 + 1"
proof -
  have e: "i + 1 = 12 * (i div 12) + (i mod 12 + 1)" by simp
  {
    assume "i mod 12 = 11"
    with e have "i + 1 = 12 * (i div 12 + 1) + 0" by simp
    then show "(i + 1) div 12 = i div 12 + 1 \<and> (i + 1) mod 12 = 0"
      by (intro conjI int_div_pos_eq[where r = 0] int_mod_pos_eq[where q = "i div 12 + 1"]) simp_all
  }
  {
    assume n: "i mod 12 \<noteq> 11"
    have "0 \<le> i mod 12" "i mod 12 < 12" by simp_all
    with n have r: "0 \<le> i mod 12 + 1" "i mod 12 + 1 < 12" by linarith+
    from e r show "(i + 1) div 12 = i div 12 \<and> (i + 1) mod 12 = i mod 12 + 1"
      by (intro conjI int_div_pos_eq[where r = "i mod 12 + 1"] int_mod_pos_eq[where q = "i div 12"])
  }
qed

lemma month_index_last:
  fixes i :: int
  assumes "i = 12 * ey + 1"
  shows "i div 12 = ey" "i mod 12 = 1"
  using assms by (auto intro: int_div_pos_eq[where r = 1] int_mod_pos_eq[where q = ey])

lemma month_index_year_lo: "12 \<le> (i::int) \<Longrightarrow> 1 \<le> i div 12"
  using zdiv_mono1[of 12 i 12] by simp

lemma month_index_year_hi: "(i::int) \<le> 12 * ey \<Longrightarrow> i div 12 \<le> ey"
  using zdiv_mono1[of i "12 * ey" 12] by simp

lemma month_index_year_hi_succ: "(i::int) \<le> 12 * ey \<Longrightarrow> (i + 1) div 12 \<le> ey"
  using zdiv_mono1[of "i + 1" "12 * ey + 1" 12] month_index_last(1)[of "12 * ey + 1" ey] by simp

lemma month_index_year_lt:
  fixes i :: int
  assumes "i < 12 * ey"
  shows "i div 12 < ey"
proof -
  have "12 * (i div 12) + i mod 12 = i" by simp
  moreover have "0 \<le> i mod 12" by simp
  ultimately have "12 * (i div 12) \<le> i" by linarith
  with assms show ?thesis by linarith
qed

lemma next_month_cursor:
  assumes "MINYEAR \<le> i div 12" "(i + 1) div 12 \<le> MAXYEAR"
  shows "next_month (month_cursor i) = Inr (month_cursor (i + 1))"
proof (cases "i mod 12 = 11")
  case True
  with month_index_succ(1)[OF True] assms show ?thesis
    by (simp add: next_month_def month_cursor_def replace_def check_date_fields_def
        cal_days_in_month_def DAYS_IN_MONTH_def MINYEAR_def)
next
  case False
  note e = month_index_succ(2)[OF False]
  have r: "0 \<le> i mod 12" "i mod 12 < 12" by simp_all
  with False have r': "1 \<le> i mod 12 + 1 + 1" "i mod 12 + 1 + 1 \<le> 12" by linarith+
  have "28 \<le> cal_days_in_month (i div 12) (i mod 12 + 1 + 1)"
    by (rule dim_range(1)[OF r'])
  with False assms e r r' show ?thesis
    by (simp add: next_month_def month_cursor_def replace_def check_date_fields_def)
qed

lemma gen_loop_months:
  assumes "12 * MINYEAR \<le> i" "i \<le> 12 * ey + 1" "ey \<le> MAXYEAR" "n = nat (12 * ey + 1 - i)"
  shows "gen_loop \<lparr>year = ey, month = 1, day = 31\<rparr> (month_cursor i) acc
         = Inr (acc @ map format_range
                  (concat (map (\<lambda>(y, m). month_parts y m)
                     (map (\<lambda>i. (i div 12, i mod 12 + 1)) [i .. 12 * ey]))))"
  using assms
proof (induction n arbitrary: i acc)
  case 0
  then have i: "i = 12 * ey + 1" by simp
  note month_index_last[OF i]
  then have "\<not> datetime_le (month_cursor i) \<lparr>year = ey, month = 1, day = 31\<rparr>"
    by (simp add: datetime_le_def month_cursor_def)
  then show ?case using i by (subst gen_loop.simps) simp
next
  case (Suc n)
  then have i: "i \<le> 12 * ey" by simp
  have y1: "MINYEAR \<le> i div 12"
    using Suc.prems(1) month_index_year_lo[of i] by (simp add: MINYEAR_def)
  have y2: "i div 12 \<le> MAXYEAR" "(i + 1) div 12 \<le> MAXYEAR"
    using month_index_year_hi[OF i] month_index_year_hi_succ[OF i] Suc.prems(3) by simp_all
  have le: "datetime_le (month_cursor i) \<lparr>year = ey, month = 1, day = 31\<rparr>"
  proof (cases "i = 12 * ey")
    case True
    then have "i div 12 = ey" "i mod 12 = 0" by simp_all
    then show ?thesis by (simp add: datetime_le_def month_cursor_def)
  next
    case False
    with i have "i < 12 * ey" by simp
    then have "i div 12 < ey" by (rule month_index_year_lt)
    then show ?thesis by (simp add: datetime_le_def month_cursor_def)
  qed
  have m0: "0 \<le> i mod 12" "i mod 12 < 12" by simp_all
  then have m: "1 \<le> i mod 12 + 1" "i mod 12 + 1 \<le> 12" by linarith+
  have mr: "month_ranges (month_cursor i) = Inr (month_parts (i div 12) (i mod 12 + 1))"
    unfolding month_cursor_def by (rule month_ranges_first[OF y1 y2(1) m])
  have nm: "next_month (month_cursor i) = Inr (month_cursor (i + 1))"
    by (rule next_month_cursor[OF y1 y2(2)])
  have ih: "gen_loop \<lparr>year = ey, month = 1, day = 31\<rparr> (month_cursor (i + 1))
              (acc @ map format_range (month_parts (i div 12) (i mod 12 + 1)))
         = Inr ((acc @ map format_range (month_parts (i div 12) (i mod 12 + 1))) @ map format_range
                  (concat (map (\<lambda>(y, m). month_parts y m)
                     (map (\<lambda>i. (i div 12, i mod 12 + 1)) [i + 1 .. 12 * ey]))))"
    using Suc.prems i by (intro Suc.IH) simp_all
  have up: "[i .. 12 * ey] = i # [i + 1 .. 12 * ey]" using i by (simp add: upto_rec1)
  show ?case
    by (subst gen_loop.simps) (simp add: le mr nm ih up)
qed

lemma upto_append:
  fixes a b c :: int
  assumes "a \<le> b + 1" "b \<le> c"
  shows "[a .. b] @ [b + 1 .. c] = [a .. c]"
proof (cases "a \<le> b")
  case True
  with assms show ?thesis using upto_split2[of a b c] by simp
next
  case False
  with assms have "a = b + 1" by simp
  then show ?thesis by simp
qed

lemma month_parts_days:
  assumes "1 \<le> m" "m \<le> 12"
  shows "concat (map interval_days (month_parts y m))
         = [ymd2ord y m 1 .. ymd2ord y m 1 + cal_days_in_month y m - 1]"
proof -
  define dim where "dim = cal_days_in_month y m"
  define p where "p = dim div 3"
  define F where "F = ymd2ord y m 1"
  have dim: "28 \<le> dim" "dim \<le> 31" using dim_range[OF assms, of y] by (simp_all add: dim_def)
  then have p: "9 \<le> p" "3 * p \<le> dim" unfolding p_def by arith+
  have o: "\<And>d. ymd2ord y m d = F + d - 1" by (simp add: F_def ymd2ord_def)
  have "concat (map interval_days (month_parts y m))
        = [F .. F + p - 1] @ [F + p .. F + 2 * p - 1] @ [F + 2 * p .. F + dim - 1]"
    by (simp add: month_parts_def Let_def interval_days_def toordinal_def o dim_def[symmetric]
        p_def[symmetric])
  also have "[F + p .. F + 2 * p - 1] @ [F + 2 * p .. F + dim - 1] = [F + p .. F + dim - 1]"
    using upto_append[of "F + p" "F + 2 * p - 1" "F + dim - 1"] p by simp
  also have "[F .. F + p - 1] @ [F + p .. F + dim - 1] = [F .. F + dim - 1]"
    using upto_append[of F "F + p - 1" "F + dim - 1"] p by simp
  finally show ?thesis by (simp add: F_def dim_def)
qed

lemma month_first_ord_succ:
  "month_first_ord (i + 1) = month_first_ord i + cal_days_in_month (i div 12) (i mod 12 + 1)"
proof (cases "i mod 12 = 11")
  case True
  note e = month_index_succ(1)[OF True]
  have "cal_days_in_month (i div 12) 12 = 31"
    by (simp add: cal_days_in_month_def DAYS_IN_MONTH_def)
  with e True dby_succ[of "i div 12"] dbm_dec[of "i div 12"] dbm_jan[of "i div 12 + 1"]
  show ?thesis
    by (simp add: month_first_ord_def ymd2ord_def split: if_splits)
next
  case False
  note e = month_index_succ(2)[OF False]
  have r: "0 \<le> i mod 12" "i mod 12 < 12" by simp_all
  with False have r': "1 \<le> i mod 12 + 1" "i mod 12 + 1 < 12" by linarith+
  from e dbm_succ[OF r', of "i div 12"] show ?thesis
    by (simp add: month_first_ord_def ymd2ord_def)
qed

lemma month_first_ord_mono: "month_first_ord i \<le> month_first_ord (i + 1)"
proof -
  have r: "0 \<le> i mod 12" "i mod 12 < 12" by simp_all
  then have "1 \<le> i mod 12 + 1" "i mod 12 + 1 \<le> 12" by linarith+
  from dim_range(1)[OF this, of "i div 12"] show ?thesis
    by (simp add: month_first_ord_succ)
qed

lemma month_first_ord_mono_le:
  assumes "i \<le> j"
  shows "month_first_ord i \<le> month_first_ord j"
proof -
  have "month_first_ord i \<le> month_first_ord (i + int k)" for k
  proof (induction k)
    case 0
    show ?case by simp
  next
    case (Suc k)
    have "month_first_ord (i + int k) \<le> month_first_ord (i + int k + 1)"
      by (rule month_first_ord_mono)
    also have "i + int k + 1 = i + int (Suc k)" by simp
    finally show ?case using Suc by simp
  qed
  from this[of "nat (j - i)"] assms show ?thesis by simp
qed

lemma coverage_months:
  assumes "i \<le> j + 1" "n = nat (j + 1 - i)"
  shows "concat (map interval_days (concat (map (\<lambda>(y, m). month_parts y m)
            (map (\<lambda>i. (i div 12, i mod 12 + 1)) [i .. j]))))
         = [month_first_ord i .. month_first_ord (j + 1) - 1]"
  using assms
proof (induction n arbitrary: i)
  case 0
  then have "i = j + 1" by simp
  then show ?case by simp
next
  case (Suc n)
  then have i: "i \<le> j" by simp
  have r: "0 \<le> i mod 12" "i mod 12 < 12" by simp_all
  then have m: "1 \<le> i mod 12 + 1" "i mod 12 + 1 \<le> 12" by linarith+
  have up: "[i .. j] = i # [i + 1 .. j]" using i by (simp add: upto_rec1)
  have ih: "concat (map interval_days (concat (map (\<lambda>(y, m). month_parts y m)
            (map (\<lambda>i. (i div 12, i mod 12 + 1)) [i + 1 .. j]))))
         = [month_first_ord (i + 1) .. month_first_ord (j + 1) - 1]"
    using Suc.prems i by (intro Suc.IH) simp_all
  have "concat (map interval_days (month_parts (i div 12) (i mod 12 + 1)))
        = [month_first_ord i .. month_first_ord i + cal_days_in_month (i div 12) (i mod 12 + 1) - 1]"
    unfolding month_first_ord_def by (rule month_parts_days[OF m])
  then have md: "concat (map interval_days (month_parts (i div 12) (i mod 12 + 1)))
        = [month_first_ord i .. month_first_ord (i + 1) - 1]"
    by (simp add: month_first_ord_succ)
  have mono: "month_first_ord (i + 1) \<le> month_first_ord (j + 1)"
    using i by (intro month_first_ord_mono_le) simp
  have "concat (map interval_days (concat (map (\<lambda>(y, m). month_parts y m)
            (map (\<lambda>i. (i div 12, i mod 12 + 1)) [i .. j]))))
        = [month_first_ord i .. month_first_ord (i + 1) - 1]
          @ [month_first_ord (i + 1) .. month_first_ord (j + 1) - 1]"
    unfolding up using ih md by simp
  also have "\<dots> = [month_first_ord i .. month_first_ord (j + 1) - 1]"
    using upto_append[of "month_first_ord i" "month_first_ord (i + 1) - 1" "month_first_ord (j + 1) - 1"]
      month_first_ord_mono[of i] mono by simp
  finally show ?case .
qed

lemma generate_date_ranges_refines:
  assumes "MINYEAR \<le> sy" "sy \<le> MAXYEAR" "MINYEAR \<le> ey" "ey \<le> MAXYEAR"
  shows "generate_date_ranges sy ey = Inr (map format_range (partition_spec sy ey))"
proof -
  have s: "check_date_fields sy 1 1 = Inr (month_cursor (12 * sy))"
    using assms by (simp add: check_date_fields_def month_cursor_def cal_days_in_month_def DAYS_IN_MONTH_def)
  have e: "check_date_fields ey 1 31 = Inr \<lparr>year = ey, month = 1, day = 31\<rparr>"
    using assms by (simp add: check_date_fields_def cal_days_in_month_def DAYS_IN_MONTH_def)
  show ?thesis
  proof (cases "sy \<le> ey")
    case True
    have "gen_loop \<lparr>year = ey, month = 1, day = 31\<rparr> (month_cursor (12 * sy)) []
         = Inr ([] @ map format_range
                  (concat (map (\<lambda>(y, m). month_parts y m)
                     (map (\<lambda>i. (i div 12, i mod 12 + 1)) [12 * sy .. 12 * ey]))))"
      using assms True by (intro gen_loop_months[OF _ _ _ refl]) simp_all
    then show ?thesis
      by (simp add: generate_date_ranges_def s e partition_spec_def covered_months_def)
  next
    case False
    then have "\<not> datetime_le (month_cursor (12 * sy)) \<lparr>year = ey, month = 1, day = 31\<rparr>"
      by (simp add: datetime_le_def month_cursor_def)
    then have "gen_loop \<lparr>year = ey, month = 1, day = 31\<rparr> (month_cursor (12 * sy)) [] = Inr []"
      by (subst gen_loop.simps) simp
    with False show ?thesis
      by (simp add: generate_date_ranges_def s e partition_spec_def covered_months_def)
  qed
qed

lemma check_date_fields_year:
  assumes "\<not> (MINYEAR \<le> y \<and> y \<le> MAXYEAR)"
  shows "check_date_fields y m d = Inl ValueError"
  using assms by (simp add: check_date_fields_def)

lemma generate_date_ranges_invalid:
  assumes "\<not> (MINYEAR \<le> sy \<and> sy \<le> MAXYEAR \<and> MINYEAR \<le> ey \<and> ey \<le> MAXYEAR)"
  shows "generate_date_ranges sy ey = Inl ValueError"
proof (cases "MINYEAR \<le> sy \<and> sy \<le> MAXYEAR")
  case False
  then show ?thesis by (simp add: generate_date_ranges_def check_date_fields_year)
next
  case True
  then have s: "check_date_fields sy 1 1 = Inr \<lparr>year = sy, month = 1, day = 1\<rparr>"
    by (simp add: check_date_fields_def cal_days_in_month_def DAYS_IN_MONTH_def)
  from True assms have "\<not> (MINYEAR \<le> ey \<and> ey \<le> MAXYEAR)" by simp
  then show ?thesis
    by (simp add: generate_date_ranges_def check_date_fields_year s)
qed

lemma month_parts_nonempty:
  assumes "1 \<le> m" "m \<le> 12" "r \<in> set (month_parts y m)"
  shows "toordinal (fst r) \<le> toordinal (snd r)"
proof -
  define dim where "dim = cal_days_in_month y m"
  define p where "p = dim div 3"
  have dim: "28 \<le> dim" "dim \<le> 31" using dim_range[OF assms(1,2), of y] by (simp_all add: dim_def)
  then have p: "9 \<le> p" "3 * p \<le> dim" unfolding p_def by arith+
  from assms(3) p show ?thesis
    by (auto simp: month_parts_def Let_def dim_def[symmetric] p_def[symmetric] toordinal_def ymd2ord_def)
qed

lemma partition_spec_nonempty:
  assumes "r \<in> set (partition_spec sy ey)"
  shows "toordinal (fst r) \<le> toordinal (snd r)"
proof -
  from assms obtain i where r: "r \<in> set (month_parts (i div 12) (i mod 12 + 1))"
    by (auto simp: partition_spec_def covered_months_def)
  have "0 \<le> i mod 12" "i mod 12 < 12" by simp_all
  then have "1 \<le> i mod 12 + 1" "i mod 12 + 1 \<le> 12" by linarith+
  from month_parts_nonempty[OF this r] show ?thesis .
qed

lemma intervals_separated:
  assumes "sorted_wrt (<) (concat (map interval_days L))"
    and "\<forall>r\<in>set L. toordinal (fst r) \<le> toordinal (snd r)"
  shows "sorted_wrt (\<lambda>r s. toordinal (snd r) < toordinal (fst s)) L"
  using assms
proof (induction L)
  case Nil
  show ?case by simp
next
  case (Cons r L)
  from Cons.prems(1) have tl: "sorted_wrt (<) (concat (map interval_days L))"
    and cross: "\<forall>a\<in>set (interval_days r). \<forall>b\<in>set (concat (map interval_days L)). a < b"
    by (simp_all add: sorted_wrt_append)
  have "toordinal (snd r) < toordinal (fst s)" if "s \<in> set L" for s
  proof -
    from Cons.prems(2) have "toordinal (snd r) \<in> set (interval_days r)"
      by (simp add: interval_days_def)
    moreover from Cons.prems(2) that have "toordinal (fst s) \<in> set (interval_days s)"
      by (simp add: interval_days_def)
    with that have "toordinal (fst s) \<in> set (concat (map interval_days L))" by auto
    ultimately show ?thesis using cross by blast
  qed
  moreover have "sorted_wrt (\<lambda>r s. toordinal (snd r) < toordinal (fst s)) L"
    using Cons.IH[OF tl] Cons.prems(2) by simp
  ultimately show ?case by simp
qed

lemma partition_spec_days:
  assumes "sy \<le> ey"
  shows "concat (map interval_days (partition_spec sy ey))
         = [toordinal \<lparr>year = sy, month = 1, day = 1\<rparr> .. toordinal \<lparr>year = ey, month = 1, day = 31\<rparr>]"
proof -
  have "concat (map interval_days (partition_spec sy ey))
        = [month_first_ord (12 * sy) .. month_first_ord (12 * ey + 1) - 1]"
    unfolding partition_spec_def covered_months_def
    using assms by (intro coverage_months[OF _ refl]) simp
  moreover have "month_first_ord (12 * sy) = toordinal \<lparr>year = sy, month = 1, day = 1\<rparr>"
    by (simp add: month_first_ord_def toordinal_def)
  moreover have "month_first_ord (12 * ey + 1) - 1 = toordinal \<lparr>year = ey, month = 1, day = 31\<rparr>"
    using month_index_last[OF refl, of ey]
    by (simp add: month_first_ord_def toordinal_def ymd2ord_def cal_days_before_month_def
        DAYS_BEFORE_MONTH_def)
  ultimately show ?thesis by simp
qed

lemma month_parts_31:
  assumes "cal_days_in_month y m = 31"
  shows "month_parts y m =
      [(\<lparr>year = y, month = m, day = 1\<rparr>, \<lparr>year = y, month = m, day = 10\<rparr>),
       (\<lparr>year = y, month = m, day = 11\<rparr>, \<lparr>year = y, month = m, day = 20\<rparr>),
       (\<lparr>year = y, month = m, day = 21\<rparr>, \<lparr>year = y, month = m, day = 31\<rparr>)]"
  using assms by (simp add: month_parts_def)

lemma partition_spec_empty:
  assumes "ey < sy"
  shows "partition_spec sy ey = []"
  using assms by (simp add: partition_spec_def covered_months_def)

lemma generate_date_ranges_cases:
  "generate_date_ranges sy ey
     = (if MINYEAR \<le> sy \<and> sy \<le> MAXYEAR \<and> MINYEAR \<le> ey \<and> ey \<le> MAXYEAR
        then Inr (map format_range (partition_spec sy ey)) else Inl ValueError)"
  using generate_date_ranges_refines[of sy ey] generate_date_ranges_invalid[of sy ey]
  by (cases "MINYEAR \<le> sy \<and> sy \<le> MAXYEAR \<and> MINYEAR \<le> ey \<and> ey \<le> MAXYEAR") simp_all

lemma month_parts_hd_last:
  "month_parts y m \<noteq> []"
  "fst (hd (month_parts y m)) = \<lparr>year = y, month = m, day = 1\<rparr>"
  "snd (last (month_parts y m)) = \<lparr>year = y, month = m, day = cal_days_in_month y m\<rparr>"
  by (simp_all add: month_parts_def Let_def)

lemma partition_spec_hd_last:
  assumes "sy \<le> ey"
  shows "partition_spec sy ey \<noteq> []"
    and "fst (hd (partition_spec sy ey)) = \<lparr>year = sy, month = 1, day = 1\<rparr>"
    and "snd (last (partition_spec sy ey)) = \<lparr>year = ey, month = 1, day = 31\<rparr>"
proof -
  from assms have up1: "[12 * sy .. 12 * ey] = 12 * sy # [12 * sy + 1 .. 12 * ey]"
    by (simp add: upto_rec1)
  from assms have up2: "[12 * sy .. 12 * ey] = [12 * sy .. 12 * ey - 1] @ [12 * ey]"
    by (simp add: upto_rec2)
  have d: "cal_days_in_month ey 1 = 31" by (simp add: cal_days_in_month_def DAYS_IN_MONTH_def)
  show "partition_spec sy ey \<noteq> []"
    unfolding partition_spec_def covered_months_def up1 by (simp add: month_parts_hd_last)
  show "fst (hd (partition_spec sy ey)) = \<lparr>year = sy, month = 1, day = 1\<rparr>"
    unfolding partition_spec_def covered_months_def up1 by (simp add: month_parts_hd_last)
  show "snd (last (partition_spec sy ey)) = \<lparr>year = ey, month = 1, day = 31\<rparr>"
    unfolding partition_spec_def covered_months_def up2 by (simp add: month_parts_hd_last d)
qed

lemma covered_months_upto_january:
  assumes "(y, m) \<in> set (covered_months sy ey)"
  shows "y < ey \<or> (y = ey \<and> m = 1)"
proof -
  from assms obtain i where i: "i \<le> 12 * ey" "y = i div 12" "m = i mod 12 + 1"
    by (auto simp: covered_months_def)
  show ?thesis
  proof (cases "i = 12 * ey")
    case True
    with i show ?thesis by simp
  next
    case False
    with i(1) have "i < 12 * ey" by simp
    from month_index_year_lt[OF this] i show ?thesis by simp
  qed
qed

lemma partition_spec_upto_january:
  assumes "r \<in> set (partition_spec sy ey)"
  shows "datetime_le (snd r) \<lparr>year = ey, month = 1, day = 31\<rparr>"
proof -
  from assms obtain y m where ym: "(y, m) \<in> set (covered_months sy ey)" "r \<in> set (month_parts y m)"
    by (auto simp: partition_spec_def)
  from covered_months_upto_january[OF ym(1)] show ?thesis
  proof
    assume "y < ey"
    with ym(2) show ?thesis by (auto simp: month_parts_def Let_def datetime_le_def)
  next
    assume e: "y = ey \<and> m = 1"
    have d: "cal_days_in_month ey 1 = 31" by (simp add: cal_days_in_month_def DAYS_IN_MONTH_def)
    from ym(2) e show ?thesis by (auto simp: month_parts_def Let_def datetime_le_def d)
  qed
qed

section \<open>Lemmas about the retrieval and the scheduler\<close>

lemma poll_no_location:
  assumes "location r = None \<or> location r = Some []"
  shows "poll net auth old r log = Some (Inr r, log)"
  using assms by (subst poll.simps) auto

lemma poll_step:
  assumes "location r = Some url" "url \<noteq> []" "order_status r = Inr st"
    "net log (Get (JStr url) auth True) = Inr r'"
  shows "poll net auth old r log = poll net auth st r' (log @ [Get (JStr url) auth True])"
  using assms by (subst poll.simps) simp

lemma poll_never_returns:
  assumes "poll net auth old r log = Some y"
    and "\<forall>lg url. \<exists>r'. net lg (Get (JStr url) auth True) = Inr r' \<and> pending r'"
    and "pending r"
  shows False
  using assms
proof (induction net auth old r log y rule: poll.raw_induct)
  case (1 poll' net auth old r log y)
  have srv: "\<forall>lg url. \<exists>r'. net lg (Get (JStr url) auth True) = Inr r' \<and> pending r'" by fact
  have pend: "pending r" by fact
  have glob: "poll net auth old r log = Some y" by fact
  from pend obtain url st where u: "location r = Some url" "url \<noteq> []" "order_status r = Inr st"
    by (auto simp: pending_def split: option.splits sum.splits)
  from srv obtain r' where r': "net log (Get (JStr url) auth True) = Inr r'" "pending r'"
    by blast
  from 1(2) u r' have loc: "poll' net auth st r' (log @ [Get (JStr url) auth True]) = Some y"
    by simp
  from glob have "poll net auth st r' (log @ [Get (JStr url) auth True]) = Some y"
    using poll_step[of r url st net log auth r' old, OF u r'(1)] by simp
  from 1(1)[OF loc this srv r'(2)] show ?case .
qed fact

lemma poll_diverges:
  assumes "\<forall>lg url. \<exists>r'. net lg (Get (JStr url) auth True) = Inr r' \<and> pending r'"
    and "pending r"
  shows "poll net auth old r log = None"
  using poll_never_returns[OF _ assms] by (cases "poll net auth old r log") auto

lemma poll_log_extends:
  assumes "poll net auth old r log = Some y"
  shows "\<exists>ext. snd y = log @ ext"
  using assms
proof (induction net auth old r log y rule: poll.raw_induct)
  case (1 poll' net auth old r log y)
  show ?case
  proof (cases "location r")
    case None
    with 1(2) show ?thesis by auto
  next
    case (Some url)
    show ?thesis
    proof (cases "url = []")
      case True
      with Some 1(2) show ?thesis by auto
    next
      case False
      show ?thesis
      proof (cases "order_status r")
        case (Inl e)
        with Some False 1(2) show ?thesis by auto
      next
        case (Inr st)
        show ?thesis
        proof (cases "net log (Get (JStr url) auth True)")
          case (Inl e)
          with Some False Inr 1(2) show ?thesis by auto
        next
          case r': (Inr r')
          from 1(2) Some False Inr r'
          have loc: "poll' net auth st r' (log @ [Get (JStr url) auth True]) = Some y" by simp
          from 1(3) have "poll net auth st r' (log @ [Get (JStr url) auth True]) = Some y"
            using poll_step[of r url st net log auth r' old, OF Some False Inr r'] by simp
          from 1(1)[OF loc this] show ?thesis by auto
        qed
      qed
    qed
  qed
qed fact

lemma write_chunks_concat:
  "write_chunks f cs (fs(f \<mapsto> c)) = fs(f \<mapsto> c @ concat cs)"
  by (induction cs arbitrary: c) simp_all

lemma stream_to_file_cases:
  "stream_to_file r fs f =
     (if status_code r \<noteq> 200 \<and> status_code r \<noteq> 202 \<and> stream_error r \<noteq> None
      then (Inl (the (stream_error r)), fs)
      else if 400 \<le> status_code r \<and> status_code r < 600 then (Inl (HTTPError (status_code r)), fs)
      else if content_length r = Some None then (Inl ValueError, fs)
      else (case stream_error r of None \<Rightarrow> Inr () | Some e \<Rightarrow> Inl e, fs(f \<mapsto> concat (chunks r))))"
  by (auto simp: stream_to_file_def raise_for_status_def write_chunks_concat Let_def
      split: option.splits)

lemma stream_to_file_fs:
  assumes "stream_to_file r fs f = (res, fs')"
  shows "fs' = fs \<or> fs' = fs(f \<mapsto> concat (chunks r))"
  using assms by (auto simp: stream_to_file_cases split: if_splits)

lemma retrieve_data_log:
  assumes "retrieve_data net tok fs s e f = Some (res, fs', log)"
  shows "\<exists>ext. log = Post search_url (auth_headers tok) (s @ ''/'' @ e) # ext"
  using assms
  by (auto simp: retrieve_data_def Let_def split: sum.splits option.splits if_splits prod.splits
      dest!: poll_log_extends)

lemma retrieve_data_fs:
  assumes "retrieve_data net tok fs s e f = Some (res, fs', log)"
  shows "fs' = fs \<or> (\<exists>data. fs' = fs(f \<mapsto> data))"
  using assms
  by (auto simp: retrieve_data_def Let_def split: sum.splits option.splits if_splits prod.splits
      dest!: stream_to_file_fs)

lemma poll_returns_without_location:
  assumes "poll net auth old r log = Some (Inr rf, lg)"
  shows "location rf = None \<or> location rf = Some []"
  using assms
proof (induction net auth old r log "(Inr rf :: exn + response, lg)" rule: poll.raw_induct)
  case (1 poll' net auth old r log)
  show ?case
  proof (cases "location r")
    case None
    with 1(2) show ?thesis by auto
  next
    case (Some url)
    show ?thesis
    proof (cases "url = []")
      case True
      with Some 1(2) show ?thesis by auto
    next
      case False
      show ?thesis
      proof (cases "order_status r")
        case (Inl e)
        with Some False 1(2) show ?thesis by auto
      next
        case (Inr st)
        show ?thesis
        proof (cases "net log (Get (JStr url) auth True)")
          case (Inl e)
          with Some False Inr 1(2) show ?thesis by auto
        next
          case r': (Inr r')
          from 1(2) Some False Inr r'
          have loc: "poll' net auth st r' (log @ [Get (JStr url) auth True]) = Some (Inr rf, lg)" by simp
          from 1(3) have "poll net auth st r' (log @ [Get (JStr url) auth True]) = Some (Inr rf, lg)"
            using poll_step[of r url st net log auth r' old, OF Some False Inr r'] by simp
          from 1(1)[OF loc this] show ?thesis by auto
        qed
      qed
    qed
  qed
qed fact

lemma pending_order_running: "pending order_running"
  by (simp add: pending_def order_running_def plain_response_def order_status_def)

lemma archive_pending_keeps_pending:
  "\<forall>lg url. \<exists>r'. archive_pending lg (Get (JStr url) auth True) = Inr r' \<and> pending r'"
  by (simp add: archive_pending_def pending_order_running)

lemma select_product_search_hit: "select_product search_hit = Inr (Some example_product)"
  by (simp add: select_product_def search_hit_def plain_response_def)

lemma download_link_example:
  "download_link example_product = Inr (JStr ''https://hda.example/download/1'')"
  by (simp add: download_link_def example_product_def)

lemma select_product_quiet:
  assumes "status_code response \<noteq> 200 \<or> body_text response = [] \<or> json_body response = None
     \<or> (\<exists>kvs. json_body response = Some (JObj kvs) \<and>
           (map_of kvs ''features'' = None \<or> map_of kvs ''features'' = Some (JArr [])))"
  shows "select_product response = Inr None"
proof -
  have k: "''features'' \<in> fst ` set kvs \<longleftrightarrow> map_of kvs ''features'' \<noteq> None" for kvs :: "(string \<times> json) list"
    by (simp add: map_of_eq_None_iff)
  from assms show ?thesis
    by (auto simp: select_product_def k split: option.splits sum.splits)
qed

lemma select_product_first:
  assumes "status_code response = 200" "body_text response \<noteq> []"
    "json_body response = Some (JObj kvs)" "map_of kvs ''features'' = Some (JArr (p # ps))"
  shows "select_product response = Inr (Some p)"
proof -
  from assms(4) have "''features'' \<in> fst ` set kvs"
    by (metis map_of_eq_None_iff option.distinct(1))
  with assms show ?thesis by (simp add: select_product_def)
qed

lemma retrieve_data_order_error:
  assumes "net [] (Post search_url (auth_headers tok) (s @ ''/'' @ e)) = Inr sr"
    and "select_product sr = Inr (Some product)"
    and "download_link product = Inr url"
    and "net [Post search_url (auth_headers tok) (s @ ''/'' @ e)] (Get url (auth_headers tok) False) = Inr r"
    and "stream_error r = None"
    and "400 \<le> status_code r" "status_code r < 600"
  shows "retrieve_data net tok fs s e f
         = Some (Inl (HTTPError (status_code r)), fs,
                 [Post search_url (auth_headers tok) (s @ ''/'' @ e), Get url (auth_headers tok) False])"
  using assms by (simp add: retrieve_data_def Let_def raise_for_status_def)

lemma retrieve_data_order_body_error:
  assumes "net [] (Post search_url (auth_headers tok) (s @ ''/'' @ e)) = Inr sr"
    and "select_product sr = Inr (Some product)"
    and "download_link product = Inr url"
    and "net [Post search_url (auth_headers tok) (s @ ''/'' @ e)] (Get url (auth_headers tok) False) = Inr r"
    and "stream_error r = Some e'"
  shows "retrieve_data net tok fs s e f
         = Some (Inl e', fs,
                 [Post search_url (auth_headers tok) (s @ ''/'' @ e), Get url (auth_headers tok) False])"
  using assms by (simp add: retrieve_data_def Let_def)

lemma retrieve_data_direct:
  assumes "net [] (Post search_url (auth_headers tok) (s @ ''/'' @ e)) = Inr sr"
    and "select_product sr = Inr (Some product)"
    and "download_link product = Inr url"
    and "net [Post search_url (auth_headers tok) (s @ ''/'' @ e)] (Get url (auth_headers tok) False) = Inr r"
    and "stream_error r = None" "status_code r = 200" "url \<noteq> JStr []"
    and "content_length r \<noteq> Some None"
  shows "retrieve_data net tok fs s e f
         = Some (Inr (), fs(f \<mapsto> concat (chunks r)),
                 [Post search_url (auth_headers tok) (s @ ''/'' @ e), Get url (auth_headers tok) False])"
  using assms by (simp add: retrieve_data_def Let_def raise_for_status_def stream_to_file_cases)

lemma retrieve_data_polled:
  assumes "net [] (Post search_url (auth_headers tok) (s @ ''/'' @ e)) = Inr sr"
    and "select_product sr = Inr (Some product)"
    and "download_link product = Inr url"
    and "net [Post search_url (auth_headers tok) (s @ ''/'' @ e)] (Get url (auth_headers tok) False) = Inr r"
    and "stream_error r = None" "\<not> (400 \<le> status_code r \<and> status_code r < 600)"
    and "status_code r \<noteq> 200"
    and "poll net (auth_headers tok) (JStr []) r
           [Post search_url (auth_headers tok) (s @ ''/'' @ e), Get url (auth_headers tok) False]
         = Some (Inr rf, log)"
  shows "retrieve_data net tok fs s e f
         = (case stream_to_file rf fs f of (res, fs') \<Rightarrow> Some (res, fs', log))"
proof -
  from assms(6) have "raise_for_status r = Inr ()"
    by (auto simp add: raise_for_status_def)
  with assms(1-5,7,8) show ?thesis
    by (simp add: retrieve_data_def Let_def)
qed

lemma poll_archive_broken_stream:
  "poll archive_broken_stream ''Bearer t'' (JStr []) order_running log
   = Some (Inr (plain_response\<lparr>chunks := [''partial''],
                  stream_error := Some (RequestException ''ChunkedEncodingError'')\<rparr>),
           log @ [Get (JStr ''https://hda.example/status/1'') ''Bearer t'' True])"
proof -
  let ?rf = "plain_response\<lparr>chunks := [''partial''],
                  stream_error := Some (RequestException ''ChunkedEncodingError'')\<rparr>"
  have l: "location order_running = Some ''https://hda.example/status/1''"
    and s: "order_status order_running = Inr (JStr ''running'')"
    by (simp_all add: order_running_def plain_response_def order_status_def)
  have n: "archive_broken_stream log (Get (JStr ''https://hda.example/status/1'') ''Bearer t'' True)
           = Inr ?rf"
    by (simp add: archive_broken_stream_def)
  have "poll archive_broken_stream ''Bearer t'' (JStr []) order_running log
        = poll archive_broken_stream ''Bearer t'' (JStr ''running'') ?rf
            (log @ [Get (JStr ''https://hda.example/status/1'') ''Bearer t'' True])"
    using l s n by (simp add: poll_step)
  also have "\<dots> = Some (Inr ?rf, log @ [Get (JStr ''https://hda.example/status/1'') ''Bearer t'' True])"
    by (rule poll_no_location) (simp add: plain_response_def)
  finally show ?thesis .
qed

lemma retrieve_data_two_failures_first:
  "retrieve_data archive_two_failures (Some ''t'') fs ''2021-01-01'' ''2021-01-10'' f
   = Some (Inl (HTTPError 500), fs,
       [Post search_url ''Bearer t'' ''2021-01-01/2021-01-10'',
        Get (JStr ''https://hda.example/download/1'') ''Bearer t'' False])"
  by (simp add: retrieve_data_def Let_def archive_two_failures_def select_product_search_hit
      download_link_example raise_for_status_def plain_response_def auth_headers_def)

lemma retrieve_data_exists:
  assumes "retrieve_data net tok fs s e f = Some (res, fs', log)" "path_exists fs p"
  shows "path_exists fs' p"
  using retrieve_data_fs[OF assms(1)] assms(2) by (auto simp: path_exists_def)

lemma run_tasks_logs:
  assumes "run_tasks net tok dir fs ts = Some (results, fs', logs)"
  shows "list_all2 (\<lambda>(s, e) lg. \<exists>ext. lg = Post search_url (auth_headers tok) (s @ ''/'' @ e) # ext)
           ts logs"
  using assms
proof (induction ts arbitrary: fs results fs' logs)
  case Nil
  then show ?case by simp
next
  case (Cons t ts)
  obtain s e where t: "t = (s, e)" by (cases t)
  from Cons.prems t obtain r fs1 lg rs lgs where
    a: "retrieve_data net tok fs s e (artifact_path dir s) = Some (r, fs1, lg)"
    and b: "run_tasks net tok dir fs1 ts = Some (rs, fs', lgs)"
    and c: "results = r # rs" "logs = lg # lgs"
    by (auto split: option.splits)
  from retrieve_data_log[OF a] Cons.IH[OF b] t c show ?case by simp
qed

lemma run_tasks_length:
  assumes "run_tasks net tok dir fs ts = Some (results, fs', logs)"
  shows "length results = length ts"
  using assms
proof (induction ts arbitrary: fs results fs' logs)
  case Nil
  then show ?case by simp
next
  case (Cons t ts)
  obtain s e where t: "t = (s, e)" by (cases t)
  from Cons.prems t obtain r fs1 lg rs lgs where
    b: "run_tasks net tok dir fs1 ts = Some (rs, fs', lgs)"
    and c: "results = r # rs"
    by (auto split: option.splits)
  from Cons.IH[OF b] c show ?case by simp
qed

lemma run_tasks_exists:
  assumes "run_tasks net tok dir fs ts = Some (results, fs', logs)" "path_exists fs p"
  shows "path_exists fs' p"
  using assms
proof (induction ts arbitrary: fs results fs' logs)
  case Nil
  then show ?case by simp
next
  case (Cons t ts)
  obtain s e where t: "t = (s, e)" by (cases t)
  from Cons.prems(1) t obtain r fs1 lg rs lgs where
    a: "retrieve_data net tok fs s e (artifact_path dir s) = Some (r, fs1, lg)"
    and b: "run_tasks net tok dir fs1 ts = Some (rs, fs', lgs)"
    by (auto split: option.splits)
  from retrieve_data_exists[OF a Cons.prems(2)] have "path_exists fs1 p" .
  from Cons.IH[OF b this] show ?case .
qed

lemma first_exception_Some:
  assumes "first_exception rs = Some e"
  shows "\<exists>i<length rs. rs ! i = Inl e \<and> (\<forall>j<i. rs ! j = Inr ())"
  using assms
proof (induction rs rule: first_exception.induct)
  case 1
  then show ?case by simp
next
  case (2 e' rs)
  then show ?case by auto
next
  case (3 u rs)
  then obtain i where i: "i < length rs" "rs ! i = Inl e" "\<forall>j<i. rs ! j = Inr ()" by auto
  have "\<forall>j<Suc i. (Inr u # rs) ! j = Inr ()"
    using i(3) by (auto simp: nth_Cons split: nat.splits)
  with i show ?case by (intro exI[of _ "Suc i"]) simp
qed

lemma pending_ranges_iff:
  "(s, e) \<in> set (pending_ranges fs dir rs)
   \<longleftrightarrow> (s, e) \<in> set rs \<and> \<not> path_exists fs (artifact_path dir s)"
  by (auto simp: pending_ranges_def)

lemma pending_ranges_done:
  assumes "\<forall>(s, e)\<in>set rs. path_exists fs (artifact_path dir s)"
  shows "pending_ranges fs dir rs = []"
  using assms by (auto simp: pending_ranges_def filter_empty_conv)

lemma retrieve_data_archive_ok:
  "retrieve_data archive_ok (Some ''t'') fs s e f
   = Some (Inr (), fs(f \<mapsto> ''data''),
       [Post search_url ''Bearer t'' (s @ ''/'' @ e),
        Get (JStr ''https://hda.example/download/1'') ''Bearer t'' False])"
  by (simp add: retrieve_data_def Let_def archive_ok_def select_product_search_hit
      download_link_example raise_for_status_def plain_response_def auth_headers_def
      stream_to_file_cases)

lemma retrieve_data_two_failures_second:
  "retrieve_data archive_two_failures (Some ''t'') fs ''2021-01-11'' ''2021-01-20'' f
   = Some (Inl (HTTPError 503), fs,
       [Post search_url ''Bearer t'' ''2021-01-11/2021-01-20'',
        Get (JStr ''https://hda.example/download/1'') ''Bearer t'' False])"
  by (simp add: retrieve_data_def Let_def archive_two_failures_def select_product_search_hit
      download_link_example raise_for_status_def plain_response_def auth_headers_def)

lemma retrieve_data_two_failures_third:
  "retrieve_data archive_two_failures (Some ''t'') fs ''2021-01-21'' ''2021-01-31'' f
   = Some (Inr (), fs(f \<mapsto> ''data''),
       [Post search_url ''Bearer t'' ''2021-01-21/2021-01-31'',
        Get (JStr ''https://hda.example/download/1'') ''Bearer t'' False])"
  by (simp add: retrieve_data_def Let_def archive_two_failures_def select_product_search_hit
      download_link_example raise_for_status_def plain_response_def auth_headers_def
      stream_to_file_cases)

lemma january_2021_paths:
  "artifact_path ''data/partial'' ''2021-01-01'' = ''data/partial/2021-01-01.nc''"
  "artifact_path ''data/partial'' ''2021-01-11'' = ''data/partial/2021-01-11.nc''"
  "artifact_path ''data/partial'' ''2021-01-21'' = ''data/partial/2021-01-21.nc''"
  by (simp_all add: artifact_path_def path_join_def)

lemma pending_january_2021_empty:
  "pending_ranges Map.empty ''data/partial'' january_2021 = january_2021"
  by (simp add: pending_ranges_def january_2021_def path_exists_def)

lemma run_tasks_two_failures:
  "run_tasks archive_two_failures (Some ''t'') ''data/partial'' Map.empty january_2021
   = Some ([Inl (HTTPError 500), Inl (HTTPError 503), Inr ()],
           [''data/partial/2021-01-21.nc'' \<mapsto> ''data''],
           [[Post search_url ''Bearer t'' ''2021-01-01/2021-01-10'',
             Get (JStr ''https://hda.example/download/1'') ''Bearer t'' False],
            [Post search_url ''Bearer t'' ''2021-01-11/2021-01-20'',
             Get (JStr ''https://hda.example/download/1'') ''Bearer t'' False],
            [Post search_url ''Bearer t'' ''2021-01-21/2021-01-31'',
             Get (JStr ''https://hda.example/download/1'') ''Bearer t'' False]])"
  by (simp add: january_2021_def january_2021_paths retrieve_data_two_failures_first
      retrieve_data_two_failures_second retrieve_data_two_failures_third)

lemma run_tasks_archive_ok:
  "run_tasks archive_ok (Some ''t'') ''data/partial'' Map.empty january_2021
   = Some ([Inr (), Inr (), Inr ()],
           [''data/partial/2021-01-01.nc'' \<mapsto> ''data'',
            ''data/partial/2021-01-11.nc'' \<mapsto> ''data'',
            ''data/partial/2021-01-21.nc'' \<mapsto> ''data''],
           [[Post search_url ''Bearer t'' ''2021-01-01/2021-01-10'',
             Get (JStr ''https://hda.example/download/1'') ''Bearer t'' False],
            [Post search_url ''Bearer t'' ''2021-01-11/2021-01-20'',
             Get (JStr ''https://hda.example/download/1'') ''Bearer t'' False],
            [Post search_url ''Bearer t'' ''2021-01-21/2021-01-31'',
             Get (JStr ''https://hda.example/download/1'') ''Bearer t'' False]])"
  by (simp add: january_2021_def january_2021_paths retrieve_data_archive_ok)

lemma generate_date_ranges_2021: "generate_date_ranges 2021 2021 = Inr january_2021"
  by (simp add: generate_date_ranges_cases MINYEAR_def MAXYEAR_def partition_spec_def
      covered_months_def month_parts_def cal_days_in_month_def DAYS_IN_MONTH_def
      format_range_def strftime_def zfill_def show_nat.simps january_2021_def)

lemma retrieve_data_unauthorized:
  "retrieve_data archive_unauthorized tok fs s e f
   = Some (Inr (), fs, [Post search_url (auth_headers tok) (s @ ''/'' @ e)])"
  by (simp add: retrieve_data_def Let_def archive_unauthorized_def select_product_def
      plain_response_def)

lemma open_datasets_fails:
  assumes "f \<in> set files" "open_dataset decode fs f = Inl e'"
  shows "\<exists>e. open_datasets decode fs files = Inl e"
  using assms by (induction files) (auto split: sum.splits)

lemma open_datasets_reads:
  assumes "list_all2 (\<lambda>file ds. \<exists>content. fs file = Some content \<and> decode content = Inr ds) files dss"
  shows "open_datasets decode fs files = Inr dss"
  using assms by (induction files dss rule: list_all2_induct) (auto simp: open_dataset_def)

lemma example_decode_abc: "example_decode ''abc'' = Inr [97, 98, 99]"
  by (simp add: example_decode_def)

lemma example_decode_cde: "example_decode ''cde'' = Inr [99, 100, 101]"
  by (simp add: example_decode_def)

lemma retrieve_missing_data_archive_ok:
  "retrieve_missing_data archive_ok (Some ''t'') id Map.empty january_2021 ''data/partial'' 2
   = Some (Inr [''data/partial/2021-01-01.nc'', ''data/partial/2021-01-11.nc'',
                ''data/partial/2021-01-21.nc''],
           [''data/partial/2021-01-01.nc'' \<mapsto> ''data'',
            ''data/partial/2021-01-11.nc'' \<mapsto> ''data'',
            ''data/partial/2021-01-21.nc'' \<mapsto> ''data''],
           [[Post search_url ''Bearer t'' ''2021-01-01/2021-01-10'',
             Get (JStr ''https://hda.example/download/1'') ''Bearer t'' False],
            [Post search_url ''Bearer t'' ''2021-01-11/2021-01-20'',
             Get (JStr ''https://hda.example/download/1'') ''Bearer t'' False],
            [Post search_url ''Bearer t'' ''2021-01-21/2021-01-31'',
             Get (JStr ''https://hda.example/download/1'') ''Bearer t'' False]])"
  by (simp add: retrieve_missing_data_def Let_def pending_january_2021_empty run_tasks_archive_ok)
     (simp add: january_2021_def january_2021_paths)

section \<open>Claims about \<^verbatim>\<open>generate_date_ranges\<close>\<close>

text \<open>
  Claim C1, as amended. For every pair with \<open>startYear \<le> endYear\<close>:
  \<^verbatim>\<open>generate_date_ranges\<close> returns the formatted intervals of \<open>partition_spec\<close> (for
  each covered month the three parts of \<open>month_parts\<close>, with
  \<open>partSize = daysInMonth // 3\<close>) when both years are years of \<^verbatim>\<open>datetime\<close>
  (\<open>MINYEAR..MAXYEAR\<close>), and raises \<^verbatim>\<open>ValueError\<close> otherwise. The intervals are
  non-empty, each ends before every later one starts (pairwise non-overlapping, in
  chronological order), and their days, listed in order, are exactly the days from
  January 1 of \<open>startYear\<close> to January 31 of \<open>endYear\<close>, each once. A month of 31 days
  has the parts [1,10], [11,20], [21,31].
\<close>

theorem partition_three_parts_cover:
  assumes "startYear \<le> endYear"
  shows "generate_date_ranges startYear endYear
           = (if MINYEAR \<le> startYear \<and> endYear \<le> MAXYEAR
              then Inr (map format_range (partition_spec startYear endYear))
              else Inl ValueError)
         \<and> concat (map interval_days (partition_spec startYear endYear))
           = [toordinal \<lparr>year = startYear, month = 1, day = 1\<rparr> ..
              toordinal \<lparr>year = endYear, month = 1, day = 31\<rparr>]
         \<and> sorted_wrt (\<lambda>r s. toordinal (snd r) < toordinal (fst s))
              (partition_spec startYear endYear)
         \<and> (\<forall>r\<in>set (partition_spec startYear endYear). toordinal (fst r) \<le> toordinal (snd r))
         \<and> (\<forall>y m. cal_days_in_month y m = 31 \<longrightarrow> month_parts y m =
              [(\<lparr>year = y, month = m, day = 1\<rparr>, \<lparr>year = y, month = m, day = 10\<rparr>),
               (\<lparr>year = y, month = m, day = 11\<rparr>, \<lparr>year = y, month = m, day = 20\<rparr>),
               (\<lparr>year = y, month = m, day = 21\<rparr>, \<lparr>year = y, month = m, day = 31\<rparr>)])"
proof (intro conjI)
  show "generate_date_ranges startYear endYear
           = (if MINYEAR \<le> startYear \<and> endYear \<le> MAXYEAR
              then Inr (map format_range (partition_spec startYear endYear))
              else Inl ValueError)"
  proof (cases "MINYEAR \<le> startYear \<and> endYear \<le> MAXYEAR")
    case True
    with assms have "MINYEAR \<le> startYear" "startYear \<le> MAXYEAR" "MINYEAR \<le> endYear" "endYear \<le> MAXYEAR"
      by simp_all
    from generate_date_ranges_refines[OF this] True show ?thesis by simp
  next
    case False
    then have "\<not> (MINYEAR \<le> startYear \<and> startYear \<le> MAXYEAR \<and> MINYEAR \<le> endYear \<and> endYear \<le> MAXYEAR)"
      by auto
    from generate_date_ranges_invalid[OF this] False show ?thesis by simp
  qed
  show days: "concat (map interval_days (partition_spec startYear endYear))
           = [toordinal \<lparr>year = startYear, month = 1, day = 1\<rparr> ..
              toordinal \<lparr>year = endYear, month = 1, day = 31\<rparr>]"
    by (rule partition_spec_days[OF assms])
  show ne: "\<forall>r\<in>set (partition_spec startYear endYear). toordinal (fst r) \<le> toordinal (snd r)"
    using partition_spec_nonempty by blast
  have "sorted_wrt (<) (concat (map interval_days (partition_spec startYear endYear)))"
    unfolding days by simp
  then show "sorted_wrt (\<lambda>r s. toordinal (snd r) < toordinal (fst s))
              (partition_spec startYear endYear)"
    using ne by (rule intervals_separated)
  show "\<forall>y m. cal_days_in_month y m = 31 \<longrightarrow> month_parts y m =
              [(\<lparr>year = y, month = m, day = 1\<rparr>, \<lparr>year = y, month = m, day = 10\<rparr>),
               (\<lparr>year = y, month = m, day = 11\<rparr>, \<lparr>year = y, month = m, day = 20\<rparr>),
               (\<lparr>year = y, month = m, day = 21\<rparr>, \<lparr>year = y, month = m, day = 31\<rparr>)]"
    using month_parts_31 by blast
qed

theorem partition_three_parts_cover_witness:
  "(2021::int) \<le> 2021
   \<and> generate_date_ranges 2021 2021
       = Inr [(''2021-01-01'', ''2021-01-10''), (''2021-01-11'', ''2021-01-20''),
              (''2021-01-21'', ''2021-01-31'')]
   \<and> concat (map interval_days (partition_spec 2021 2021)) = [737791 .. 737821]
   \<and> (\<lparr>year = 2021, month = 1, day = 11\<rparr>, \<lparr>year = 2021, month = 1, day = 20\<rparr>)
       \<in> set (partition_spec 2021 2021)
   \<and> cal_days_in_month 2021 1 = 31"
proof -
  have ps: "partition_spec 2021 2021 =
      [(\<lparr>year = 2021, month = 1, day = 1\<rparr>, \<lparr>year = 2021, month = 1, day = 10\<rparr>),
       (\<lparr>year = 2021, month = 1, day = 11\<rparr>, \<lparr>year = 2021, month = 1, day = 20\<rparr>),
       (\<lparr>year = 2021, month = 1, day = 21\<rparr>, \<lparr>year = 2021, month = 1, day = 31\<rparr>)]"
    by (simp add: partition_spec_def covered_months_def month_parts_def cal_days_in_month_def
        DAYS_IN_MONTH_def is_leap_def)
  have o: "toordinal \<lparr>year = 2021, month = 1, day = 1\<rparr> = 737791"
    "toordinal \<lparr>year = 2021, month = 1, day = 31\<rparr> = 737821"
    by (simp_all add: toordinal_def ymd2ord_def days_before_year_def cal_days_before_month_def
        DAYS_BEFORE_MONTH_def)
  have f: "map format_range (partition_spec 2021 2021)
       = [(''2021-01-01'', ''2021-01-10''), (''2021-01-11'', ''2021-01-20''),
              (''2021-01-21'', ''2021-01-31'')]"
    unfolding ps by (simp add: format_range_def strftime_def zfill_def show_nat.simps)
  have d: "cal_days_in_month 2021 1 = 31"
    by (simp add: cal_days_in_month_def DAYS_IN_MONTH_def)
  from partition_three_parts_cover[of 2021 2021] show ?thesis
    by (simp add: f o d MINYEAR_def MAXYEAR_def) (simp add: ps)
qed

text \<open>
  Claim C1 as stated, for every pair with \<open>startYear \<le> endYear\<close>, fails outside the
  years of \<^verbatim>\<open>datetime\<close>: \<^verbatim>\<open>datetime(10000, 1, 1)\<close> raises and nothing is emitted.
\<close>

theorem partition_raises_outside_datetime_years:
  "(10000::int) \<le> 10000 \<and> generate_date_ranges 10000 10000 = Inl ValueError"
  by (simp add: generate_date_ranges_def check_date_fields_def MINYEAR_def MAXYEAR_def)

text \<open>
  Claim C3. The end boundary is January 31 of \<open>endYear\<close>: whenever the call emits
  intervals, they are the formatted \<open>partition_spec\<close>, the first interval starts on
  January 1 of \<open>startYear\<close> and the last one ends on January 31 of \<open>endYear\<close>; the
  covered months are before \<open>endYear\<close> or January of \<open>endYear\<close>, and no interval ends
  after January 31 of \<open>endYear\<close>. For years of \<^verbatim>\<open>datetime\<close> with
  \<open>startYear \<le> endYear\<close> intervals are emitted.
\<close>

theorem end_boundary_is_january_31:
  "(MINYEAR \<le> startYear \<and> startYear \<le> endYear \<and> endYear \<le> MAXYEAR \<longrightarrow>
      (\<exists>rs. generate_date_ranges startYear endYear = Inr rs \<and> rs \<noteq> []))
   \<and> (\<forall>rs. generate_date_ranges startYear endYear = Inr rs \<and> rs \<noteq> [] \<longrightarrow>
         rs = map format_range (partition_spec startYear endYear)
         \<and> fst (hd rs) = strftime \<lparr>year = startYear, month = 1, day = 1\<rparr>
         \<and> snd (last rs) = strftime \<lparr>year = endYear, month = 1, day = 31\<rparr>)
   \<and> (\<forall>(y, m)\<in>set (covered_months startYear endYear). y < endYear \<or> (y = endYear \<and> m = 1))
   \<and> (\<forall>r\<in>set (partition_spec startYear endYear).
         datetime_le (snd r) \<lparr>year = endYear, month = 1, day = 31\<rparr>)"
proof (intro conjI allI impI)
  assume a: "MINYEAR \<le> startYear \<and> startYear \<le> endYear \<and> endYear \<le> MAXYEAR"
  then have "generate_date_ranges startYear endYear
             = Inr (map format_range (partition_spec startYear endYear))"
    by (simp add: generate_date_ranges_cases)
  moreover from a have "partition_spec startYear endYear \<noteq> []"
    by (intro partition_spec_hd_last(1)) simp
  ultimately show "\<exists>rs. generate_date_ranges startYear endYear = Inr rs \<and> rs \<noteq> []" by simp
next
  fix rs
  assume a: "generate_date_ranges startYear endYear = Inr rs \<and> rs \<noteq> []"
  then have rs: "rs = map format_range (partition_spec startYear endYear)"
    by (simp add: generate_date_ranges_cases split: if_splits)
  with a have "partition_spec startYear endYear \<noteq> []" by auto
  then have le: "startYear \<le> endYear" using partition_spec_empty[of endYear startYear] by force
  note hl = partition_spec_hd_last[OF le]
  show "rs = map format_range (partition_spec startYear endYear)" by (rule rs)
  show "fst (hd rs) = strftime \<lparr>year = startYear, month = 1, day = 1\<rparr>"
    unfolding rs using hl by (simp add: hd_map format_range_def)
  show "snd (last rs) = strftime \<lparr>year = endYear, month = 1, day = 31\<rparr>"
    unfolding rs using hl by (simp add: last_map format_range_def)
next
  show "\<forall>(y, m)\<in>set (covered_months startYear endYear). y < endYear \<or> (y = endYear \<and> m = 1)"
    using covered_months_upto_january by blast
  show "\<forall>r\<in>set (partition_spec startYear endYear).
         datetime_le (snd r) \<lparr>year = endYear, month = 1, day = 31\<rparr>"
    using partition_spec_upto_january by blast
qed

theorem end_boundary_is_january_31_witness:
  "(MINYEAR \<le> 2020 \<and> (2020::int) \<le> 2021 \<and> 2021 \<le> MAXYEAR)
   \<and> generate_date_ranges 2021 2021
       = Inr [(''2021-01-01'', ''2021-01-10''), (''2021-01-11'', ''2021-01-20''),
              (''2021-01-21'', ''2021-01-31'')]
   \<and> snd (last [(''2021-01-01'', ''2021-01-10''), (''2021-01-11'', ''2021-01-20''),
              (''2021-01-21'', ''2021-01-31'')])
       = strftime \<lparr>year = 2021, month = 1, day = 31\<rparr>
   \<and> (\<exists>rs. generate_date_ranges 2020 2021 = Inr rs \<and> rs \<noteq> []
         \<and> snd (last rs) = strftime \<lparr>year = 2021, month = 1, day = 31\<rparr>)
   \<and> (2021, 1) \<in> set (covered_months 2021 2021)"
proof -
  have g: "generate_date_ranges 2021 2021
       = Inr [(''2021-01-01'', ''2021-01-10''), (''2021-01-11'', ''2021-01-20''),
              (''2021-01-21'', ''2021-01-31'')]"
    by (simp add: generate_date_ranges_cases MINYEAR_def MAXYEAR_def partition_spec_def
        covered_months_def month_parts_def cal_days_in_month_def DAYS_IN_MONTH_def
        format_range_def strftime_def zfill_def show_nat.simps)
  have s: "strftime \<lparr>year = 2021, month = 1, day = 31\<rparr> = ''2021-01-31''"
    by (simp add: strftime_def zfill_def show_nat.simps)
  have c: "(2021, 1) \<in> set (covered_months 2021 2021)"
    by (simp add: covered_months_def)
  from end_boundary_is_january_31[of 2020 2021]
  have "\<exists>rs. generate_date_ranges 2020 2021 = Inr rs \<and> rs \<noteq> []
         \<and> snd (last rs) = strftime \<lparr>year = 2021, month = 1, day = 31\<rparr>"
    by (auto simp: MINYEAR_def MAXYEAR_def)
  with g s c show ?thesis by (simp add: MINYEAR_def MAXYEAR_def)
qed

text \<open>
  Claim C10, as amended. For every pair with \<open>startYear > endYear\<close> the result is the
  empty list when both years are years of \<^verbatim>\<open>datetime\<close>; otherwise the constructor
  raises \<^verbatim>\<open>ValueError\<close> before the loop.
\<close>

theorem empty_when_start_after_end:
  assumes "endYear < startYear"
  shows "generate_date_ranges startYear endYear
         = (if MINYEAR \<le> endYear \<and> startYear \<le> MAXYEAR then Inr [] else Inl ValueError)"
  using assms
  by (auto simp: generate_date_ranges_cases partition_spec_empty)

theorem empty_when_start_after_end_witness:
  "(2020::int) < 2021 \<and> generate_date_ranges 2021 2020 = Inr []"
  using empty_when_start_after_end[of 2020 2021] by (simp add: MINYEAR_def MAXYEAR_def)

text \<open>
  Claim C10 as stated, for every pair with \<open>startYear > endYear\<close>, fails at
  \<open>(10000, 9999)\<close>: the call raises instead of returning the empty list.
\<close>

theorem start_after_end_raises_outside_datetime_years:
  "(9999::int) < 10000 \<and> generate_date_ranges 10000 9999 = Inl ValueError
   \<and> generate_date_ranges 10000 9999 \<noteq> Inr []"
  by (simp add: generate_date_ranges_def check_date_fields_def MINYEAR_def MAXYEAR_def)

section \<open>Claims about \<^verbatim>\<open>retrieve_data\<close>\<close>

text \<open>
  Claim C6, as amended. The search step does not raise when the search finds nothing
  or the response is unusable: for a status other than 200, an empty body, a body that
  is not JSON, a document without \<^verbatim>\<open>features\<close> or with an empty \<^verbatim>\<open>features\<close> list, the
  task returns normally after the one search request, leaving the file system as it
  was. When the \<^verbatim>\<open>features\<close> list has results, the first one in response order is
  selected.
\<close>

theorem search_returns_quietly_or_first_product:
  "(net [] (Post search_url (auth_headers access_token) (start_date @ ''/'' @ end_date)) = Inr response
     \<and> (status_code response \<noteq> 200 \<or> body_text response = [] \<or> json_body response = None
         \<or> (\<exists>kvs. json_body response = Some (JObj kvs) \<and>
               (map_of kvs ''features'' = None \<or> map_of kvs ''features'' = Some (JArr []))))
     \<longrightarrow> retrieve_data net access_token fs start_date end_date output_file
           = Some (Inr (), fs,
               [Post search_url (auth_headers access_token) (start_date @ ''/'' @ end_date)]))
   \<and> (status_code response = 200 \<and> body_text response \<noteq> []
       \<and> json_body response = Some (JObj kvs)
       \<and> map_of kvs ''features'' = Some (JArr (p # ps))
     \<longrightarrow> select_product response = Inr (Some p))"
proof (intro conjI impI)
  assume a: "net [] (Post search_url (auth_headers access_token) (start_date @ ''/'' @ end_date)) = Inr response
     \<and> (status_code response \<noteq> 200 \<or> body_text response = [] \<or> json_body response = None
         \<or> (\<exists>kvs. json_body response = Some (JObj kvs) \<and>
               (map_of kvs ''features'' = None \<or> map_of kvs ''features'' = Some (JArr []))))"
  then have "select_product response = Inr None" by (intro select_product_quiet) blast
  with a show "retrieve_data net access_token fs start_date end_date output_file
           = Some (Inr (), fs,
               [Post search_url (auth_headers access_token) (start_date @ ''/'' @ end_date)])"
    by (simp add: retrieve_data_def Let_def)
next
  assume "status_code response = 200 \<and> body_text response \<noteq> []
       \<and> json_body response = Some (JObj kvs)
       \<and> map_of kvs ''features'' = Some (JArr (p # ps))"
  then show "select_product response = Inr (Some p)"
    by (intro select_product_first) auto
qed

theorem search_returns_quietly_or_first_product_witness:
  "archive_empty [] (Post search_url (auth_headers (Some ''t'')) (''2021-01-01'' @ ''/'' @ ''2021-01-10''))
     = Inr search_empty
   \<and> json_body search_empty = Some (JObj [(''features'', JArr [])])
   \<and> map_of [(''features'', JArr [])] ''features'' = Some (JArr [])
   \<and> retrieve_data archive_empty (Some ''t'') Map.empty ''2021-01-01'' ''2021-01-10''
        ''data/partial/2021-01-01.nc''
      = Some (Inr (), Map.empty, [Post search_url (auth_headers (Some ''t'')) (''2021-01-01'' @ ''/'' @ ''2021-01-10'')])
   \<and> status_code search_hit = 200 \<and> body_text search_hit \<noteq> []
   \<and> json_body search_hit = Some (JObj [(''features'', JArr [example_product, JNull])])
   \<and> map_of [(''features'', JArr [example_product, JNull])] ''features''
        = Some (JArr (example_product # [JNull]))
   \<and> select_product search_hit = Inr (Some example_product)"
proof -
  have a: "archive_empty [] (Post search_url (auth_headers (Some ''t'')) (''2021-01-01'' @ ''/'' @ ''2021-01-10''))
     = Inr search_empty" by (simp add: archive_empty_def)
  have b: "json_body search_empty = Some (JObj [(''features'', JArr [])])"
    by (simp add: search_empty_def plain_response_def)
  have c: "map_of [(''features'', JArr [])] ''features'' = Some (JArr [])" by simp
  have d: "status_code search_hit = 200" "body_text search_hit \<noteq> []"
    "json_body search_hit = Some (JObj [(''features'', JArr [example_product, JNull])])"
    by (simp_all add: search_hit_def plain_response_def)
  have e: "map_of [(''features'', JArr [example_product, JNull])] ''features''
        = Some (JArr (example_product # [JNull]))" by simp
  note t = search_returns_quietly_or_first_product
  from t[of archive_empty "Some ''t''" "''2021-01-01''" "''2021-01-10''" search_empty Map.empty
      "''data/partial/2021-01-01.nc''"] a b c
  have 1: "retrieve_data archive_empty (Some ''t'') Map.empty ''2021-01-01'' ''2021-01-10''
        ''data/partial/2021-01-01.nc''
      = Some (Inr (), Map.empty, [Post search_url (auth_headers (Some ''t'')) (''2021-01-01'' @ ''/'' @ ''2021-01-10'')])"
    by blast
  from t[where response = search_hit and kvs = "[(''features'', JArr [example_product, JNull])]"
      and p = example_product and ps = "[JNull]"] d e
  have 2: "select_product search_hit = Inr (Some example_product)" by blast
  from a b c d e 1 2 show ?thesis by blast
qed

text \<open>
  Claim C6 as stated fails: with zero results, and with the status 401, the task
  ends without any exception (there is no \<^verbatim>\<open>NoMatchError\<close> or \<^verbatim>\<open>SearchProtocolError\<close>).
\<close>

theorem no_match_is_not_an_error:
  "retrieve_data archive_empty (Some ''t'') Map.empty ''2021-01-01'' ''2021-01-10''
        ''data/partial/2021-01-01.nc''
      = Some (Inr (), Map.empty, [Post search_url ''Bearer t'' ''2021-01-01/2021-01-10''])
   \<and> retrieve_data archive_unauthorized (Some ''t'') Map.empty ''2021-01-01'' ''2021-01-10''
        ''data/partial/2021-01-01.nc''
      = Some (Inr (), Map.empty, [Post search_url ''Bearer t'' ''2021-01-01/2021-01-10''])"
  by (simp add: retrieve_data_def Let_def archive_empty_def archive_unauthorized_def
      select_product_def search_empty_def plain_response_def auth_headers_def)

text \<open>
  Claim C8, as amended. On an HTTP error status (400 to 599), of the download link
  response or of the response to be written, the task raises before the output file is
  opened and the file system is unchanged: \<^verbatim>\<open>HTTPError\<close>, or, for a streamed response
  whose body breaks while \<^verbatim>\<open>print(response.text)\<close> reads it, the exception of the
  stream. So it is when the body of the download link response breaks, since that body
  is read inside \<^verbatim>\<open>requests.get\<close>. A direct download writes the whole body. There is
  no temporary path and no rename: the body is written straight to the final artifact
  path, which is the only path a task ever writes, and on the polled path, where the
  response is streamed, what the stream delivered before it broke stays there.
\<close>

theorem download_writes_final_path_directly:
  "(400 \<le> status_code r \<and> status_code r < 600 \<longrightarrow>
      stream_to_file r fs output_file
        = (Inl (case stream_error r of None \<Rightarrow> HTTPError (status_code r) | Some e \<Rightarrow> e), fs))
   \<and> (net [] (Post search_url (auth_headers access_token) (start_date @ ''/'' @ end_date)) = Inr sr
       \<and> select_product sr = Inr (Some product) \<and> download_link product = Inr url
       \<and> net [Post search_url (auth_headers access_token) (start_date @ ''/'' @ end_date)]
             (Get url (auth_headers access_token) False) = Inr r
       \<and> stream_error r = None
       \<and> 400 \<le> status_code r \<and> status_code r < 600 \<longrightarrow>
      retrieve_data net access_token fs start_date end_date output_file
        = Some (Inl (HTTPError (status_code r)), fs,
                [Post search_url (auth_headers access_token) (start_date @ ''/'' @ end_date),
                 Get url (auth_headers access_token) False]))
   \<and> (net [] (Post search_url (auth_headers access_token) (start_date @ ''/'' @ end_date)) = Inr sr
       \<and> select_product sr = Inr (Some product) \<and> download_link product = Inr url
       \<and> net [Post search_url (auth_headers access_token) (start_date @ ''/'' @ end_date)]
             (Get url (auth_headers access_token) False) = Inr r
       \<and> stream_error r = Some e' \<longrightarrow>
      retrieve_data net access_token fs start_date end_date output_file
        = Some (Inl e', fs,
                [Post search_url (auth_headers access_token) (start_date @ ''/'' @ end_date),
                 Get url (auth_headers access_token) False]))
   \<and> (net [] (Post search_url (auth_headers access_token) (start_date @ ''/'' @ end_date)) = Inr sr
       \<and> select_product sr = Inr (Some product) \<and> download_link product = Inr url
       \<and> net [Post search_url (auth_headers access_token) (start_date @ ''/'' @ end_date)]
             (Get url (auth_headers access_token) False) = Inr r
       \<and> stream_error r = None \<and> status_code r = 200 \<and> url \<noteq> JStr []
       \<and> content_length r \<noteq> Some None \<longrightarrow>
      retrieve_data net access_token fs start_date end_date output_file
        = Some (Inr (), fs(output_file \<mapsto> concat (chunks r)),
                [Post search_url (auth_headers access_token) (start_date @ ''/'' @ end_date),
                 Get url (auth_headers access_token) False]))
   \<and> (net [] (Post search_url (auth_headers access_token) (start_date @ ''/'' @ end_date)) = Inr sr
       \<and> select_product sr = Inr (Some product) \<and> download_link product = Inr url
       \<and> net [Post search_url (auth_headers access_token) (start_date @ ''/'' @ end_date)]
             (Get url (auth_headers access_token) False) = Inr r
       \<and> stream_error r = None \<and> \<not> (400 \<le> status_code r \<and> status_code r < 600)
       \<and> status_code r \<noteq> 200
       \<and> poll net (auth_headers access_token) (JStr []) r
             [Post search_url (auth_headers access_token) (start_date @ ''/'' @ end_date),
              Get url (auth_headers access_token) False] = Some (Inr rf, log) \<longrightarrow>
      retrieve_data net access_token fs start_date end_date output_file
        = (case stream_to_file rf fs output_file of (res, fs') \<Rightarrow> Some (res, fs', log)))
   \<and> (\<not> (400 \<le> status_code r \<and> status_code r < 600)
       \<and> (status_code r = 200 \<or> status_code r = 202 \<or> stream_error r = None)
       \<and> content_length r \<noteq> Some None \<longrightarrow>
      stream_to_file r fs output_file
        = (case stream_error r of None \<Rightarrow> Inr () | Some e \<Rightarrow> Inl e,
           fs(output_file \<mapsto> concat (chunks r))))
   \<and> (\<forall>res fs' log.
        retrieve_data net access_token fs start_date end_date output_file = Some (res, fs', log) \<longrightarrow>
        fs' = fs \<or> (\<exists>data. fs' = fs(output_file \<mapsto> data)))"
proof (intro conjI impI allI)
  assume "400 \<le> status_code r \<and> status_code r < 600"
  then show "stream_to_file r fs output_file
        = (Inl (case stream_error r of None \<Rightarrow> HTTPError (status_code r) | Some e \<Rightarrow> e), fs)"
    by (auto simp: stream_to_file_cases split: option.splits)
next
  assume "net [] (Post search_url (auth_headers access_token) (start_date @ ''/'' @ end_date)) = Inr sr
       \<and> select_product sr = Inr (Some product) \<and> download_link product = Inr url
       \<and> net [Post search_url (auth_headers access_token) (start_date @ ''/'' @ end_date)]
             (Get url (auth_headers access_token) False) = Inr r
       \<and> stream_error r = None
       \<and> 400 \<le> status_code r \<and> status_code r < 600"
  then show "retrieve_data net access_token fs start_date end_date output_file
        = Some (Inl (HTTPError (status_code r)), fs,
                [Post search_url (auth_headers access_token) (start_date @ ''/'' @ end_date),
                 Get url (auth_headers access_token) False])"
    by (intro retrieve_data_order_error) blast+
next
  assume "net [] (Post search_url (auth_headers access_token) (start_date @ ''/'' @ end_date)) = Inr sr
       \<and> select_product sr = Inr (Some product) \<and> download_link product = Inr url
       \<and> net [Post search_url (auth_headers access_token) (start_date @ ''/'' @ end_date)]
             (Get url (auth_headers access_token) False) = Inr r
       \<and> stream_error r = Some e'"
  then show "retrieve_data net access_token fs start_date end_date output_file
        = Some (Inl e', fs,
                [Post search_url (auth_headers access_token) (start_date @ ''/'' @ end_date),
                 Get url (auth_headers access_token) False])"
    by (intro retrieve_data_order_body_error) blast+
next
  assume "net [] (Post search_url (auth_headers access_token) (start_date @ ''/'' @ end_date)) = Inr sr
       \<and> select_product sr = Inr (Some product) \<and> download_link product = Inr url
       \<and> net [Post search_url (auth_headers access_token) (start_date @ ''/'' @ end_date)]
             (Get url (auth_headers access_token) False) = Inr r
       \<and> stream_error r = None \<and> status_code r = 200 \<and> url \<noteq> JStr []
       \<and> content_length r \<noteq> Some None"
  then show "retrieve_data net access_token fs start_date end_date output_file
        = Some (Inr (), fs(output_file \<mapsto> concat (chunks r)),
                [Post search_url (auth_headers access_token) (start_date @ ''/'' @ end_date),
                 Get url (auth_headers access_token) False])"
    by (intro retrieve_data_direct) blast+
next
  assume "net [] (Post search_url (auth_headers access_token) (start_date @ ''/'' @ end_date)) = Inr sr
       \<and> select_product sr = Inr (Some product) \<and> download_link product = Inr url
       \<and> net [Post search_url (auth_headers access_token) (start_date @ ''/'' @ end_date)]
             (Get url (auth_headers access_token) False) = Inr r
       \<and> stream_error r = None \<and> \<not> (400 \<le> status_code r \<and> status_code r < 600)
       \<and> status_code r \<noteq> 200
       \<and> poll net (auth_headers access_token) (JStr []) r
             [Post search_url (auth_headers access_token) (start_date @ ''/'' @ end_date),
              Get url (auth_headers access_token) False] = Some (Inr rf, log)"
  then show "retrieve_data net access_token fs start_date end_date output_file
        = (case stream_to_file rf fs output_file of (res, fs') \<Rightarrow> Some (res, fs', log))"
    by (intro retrieve_data_polled) blast+
next
  assume "\<not> (400 \<le> status_code r \<and> status_code r < 600)
       \<and> (status_code r = 200 \<or> status_code r = 202 \<or> stream_error r = None)
       \<and> content_length r \<noteq> Some None"
  then show "stream_to_file r fs output_file
        = (case stream_error r of None \<Rightarrow> Inr () | Some e \<Rightarrow> Inl e,
           fs(output_file \<mapsto> concat (chunks r)))"
    by (auto simp: stream_to_file_cases)
next
  fix res fs' log
  assume "retrieve_data net access_token fs start_date end_date output_file = Some (res, fs', log)"
  then show "fs' = fs \<or> (\<exists>data. fs' = fs(output_file \<mapsto> data))"
    by (rule retrieve_data_fs)
qed

theorem download_writes_final_path_directly_witness:
  "stream_to_file (plain_response\<lparr>status_code := 500\<rparr>) Map.empty ''data/partial/2021-01-01.nc''
       = (Inl (HTTPError 500), Map.empty)
   \<and> retrieve_data archive_two_failures (Some ''t'') Map.empty ''2021-01-01'' ''2021-01-10''
        ''data/partial/2021-01-01.nc''
       = Some (Inl (HTTPError 500), Map.empty,
           [Post search_url ''Bearer t'' ''2021-01-01/2021-01-10'',
            Get (JStr ''https://hda.example/download/1'') ''Bearer t'' False])
   \<and> retrieve_data archive_broken_body (Some ''t'') Map.empty ''2021-01-01'' ''2021-01-10''
        ''data/partial/2021-01-01.nc''
       = Some (Inl (RequestException ''ChunkedEncodingError''), Map.empty,
           [Post search_url ''Bearer t'' ''2021-01-01/2021-01-10'',
            Get (JStr ''https://hda.example/download/1'') ''Bearer t'' False])
   \<and> retrieve_data archive_ok (Some ''t'') Map.empty ''2021-01-01'' ''2021-01-10''
        ''data/partial/2021-01-01.nc''
       = Some (Inr (), [''data/partial/2021-01-01.nc'' \<mapsto> ''data''],
           [Post search_url ''Bearer t'' ''2021-01-01/2021-01-10'',
            Get (JStr ''https://hda.example/download/1'') ''Bearer t'' False])
   \<and> retrieve_data archive_broken_stream (Some ''t'') Map.empty ''2021-01-01'' ''2021-01-10''
        ''data/partial/2021-01-01.nc''
       = Some (Inl (RequestException ''ChunkedEncodingError''),
           [''data/partial/2021-01-01.nc'' \<mapsto> ''partial''],
           [Post search_url ''Bearer t'' ''2021-01-01/2021-01-10'',
            Get (JStr ''https://hda.example/download/1'') ''Bearer t'' False,
            Get (JStr ''https://hda.example/status/1'') ''Bearer t'' True])
   \<and> stream_to_file (plain_response\<lparr>chunks := [''data'']\<rparr>) Map.empty ''data/partial/2021-01-01.nc''
       = (Inr (), [''data/partial/2021-01-01.nc'' \<mapsto> ''data''])"
proof -
  note t = download_writes_final_path_directly
  note ev = select_product_search_hit download_link_example plain_response_def auth_headers_def
    order_running_def
  let ?out = "''data/partial/2021-01-01.nc''"
  let ?broken = "plain_response\<lparr>chunks := [''partial''],
                   stream_error := Some (RequestException ''ChunkedEncodingError'')\<rparr>"
  from t[where r = "plain_response\<lparr>status_code := 500\<rparr>" and fs = Map.empty and output_file = ?out]
  have 1: "stream_to_file (plain_response\<lparr>status_code := 500\<rparr>) Map.empty ?out
       = (Inl (HTTPError 500), Map.empty)"
    by (simp add: plain_response_def)
  from t[where net = archive_two_failures and access_token = "Some ''t''"
      and start_date = "''2021-01-01''" and end_date = "''2021-01-10''" and sr = search_hit
      and product = example_product and url = "JStr ''https://hda.example/download/1''"
      and r = "plain_response\<lparr>status_code := 500\<rparr>" and fs = Map.empty and output_file = ?out]
  have 2: "retrieve_data archive_two_failures (Some ''t'') Map.empty ''2021-01-01'' ''2021-01-10'' ?out
       = Some (Inl (HTTPError 500), Map.empty,
           [Post search_url ''Bearer t'' ''2021-01-01/2021-01-10'',
            Get (JStr ''https://hda.example/download/1'') ''Bearer t'' False])"
    by (simp add: archive_two_failures_def ev)
  from t[where net = archive_broken_body and access_token = "Some ''t''"
      and start_date = "''2021-01-01''" and end_date = "''2021-01-10''" and sr = search_hit
      and product = example_product and url = "JStr ''https://hda.example/download/1''"
      and r = ?broken and e' = "RequestException ''ChunkedEncodingError''"
      and fs = Map.empty and output_file = ?out]
  have 3: "retrieve_data archive_broken_body (Some ''t'') Map.empty ''2021-01-01'' ''2021-01-10'' ?out
       = Some (Inl (RequestException ''ChunkedEncodingError''), Map.empty,
           [Post search_url ''Bearer t'' ''2021-01-01/2021-01-10'',
            Get (JStr ''https://hda.example/download/1'') ''Bearer t'' False])"
    by (simp add: archive_broken_body_def ev)
  from t[where net = archive_ok and access_token = "Some ''t''"
      and start_date = "''2021-01-01''" and end_date = "''2021-01-10''" and sr = search_hit
      and product = example_product and url = "JStr ''https://hda.example/download/1''"
      and r = "plain_response\<lparr>chunks := [''data'']\<rparr>" and fs = Map.empty and output_file = ?out]
  have 4: "retrieve_data archive_ok (Some ''t'') Map.empty ''2021-01-01'' ''2021-01-10'' ?out
       = Some (Inr (), [?out \<mapsto> ''data''],
           [Post search_url ''Bearer t'' ''2021-01-01/2021-01-10'',
            Get (JStr ''https://hda.example/download/1'') ''Bearer t'' False])"
    by (simp add: archive_ok_def ev)
  have p: "poll archive_broken_stream (auth_headers (Some ''t'')) (JStr []) order_running
             [Post search_url (auth_headers (Some ''t'')) (''2021-01-01'' @ ''/'' @ ''2021-01-10''),
              Get (JStr ''https://hda.example/download/1'') (auth_headers (Some ''t'')) False]
           = Some (Inr ?broken,
               [Post search_url ''Bearer t'' ''2021-01-01/2021-01-10'',
                Get (JStr ''https://hda.example/download/1'') ''Bearer t'' False,
                Get (JStr ''https://hda.example/status/1'') ''Bearer t'' True])"
    using poll_archive_broken_stream[of "[Post search_url ''Bearer t'' ''2021-01-01/2021-01-10'',
                Get (JStr ''https://hda.example/download/1'') ''Bearer t'' False]"]
    by (simp add: auth_headers_def)
  have s: "stream_to_file ?broken Map.empty ?out
           = (Inl (RequestException ''ChunkedEncodingError''), [?out \<mapsto> ''partial''])"
    by (simp add: stream_to_file_cases plain_response_def)
  from t[where net = archive_broken_stream and access_token = "Some ''t''"
      and start_date = "''2021-01-01''" and end_date = "''2021-01-10''" and sr = search_hit
      and product = example_product and url = "JStr ''https://hda.example/download/1''"
      and r = order_running and rf = ?broken
      and log = "[Post search_url ''Bearer t'' ''2021-01-01/2021-01-10'',
                Get (JStr ''https://hda.example/download/1'') ''Bearer t'' False,
                Get (JStr ''https://hda.example/status/1'') ''Bearer t'' True]"
      and fs = Map.empty and output_file = ?out] p s
  have 5: "retrieve_data archive_broken_stream (Some ''t'') Map.empty ''2021-01-01'' ''2021-01-10'' ?out
       = Some (Inl (RequestException ''ChunkedEncodingError''), [?out \<mapsto> ''partial''],
           [Post search_url ''Bearer t'' ''2021-01-01/2021-01-10'',
            Get (JStr ''https://hda.example/download/1'') ''Bearer t'' False,
            Get (JStr ''https://hda.example/status/1'') ''Bearer t'' True])"
    by (simp add: archive_broken_stream_def ev)
  from t[where r = "plain_response\<lparr>chunks := [''data'']\<rparr>" and fs = Map.empty and output_file = ?out]
  have 6: "stream_to_file (plain_response\<lparr>chunks := [''data'']\<rparr>) Map.empty ?out
       = (Inr (), [?out \<mapsto> ''data''])"
    by (simp add: plain_response_def)
  from 1 2 3 4 5 6 show ?thesis by simp
qed

text \<open>
  Claim C8 as stated fails: when the order is polled and the stream of the data breaks
  after its first chunk, that chunk stays in a file at the final artifact path.
\<close>

theorem broken_stream_leaves_partial_file:
  "retrieve_data archive_broken_stream (Some ''t'') Map.empty ''2021-01-01'' ''2021-01-10''
        ''data/partial/2021-01-01.nc''
     = Some (Inl (RequestException ''ChunkedEncodingError''),
             [''data/partial/2021-01-01.nc'' \<mapsto> ''partial''],
             [Post search_url ''Bearer t'' ''2021-01-01/2021-01-10'',
              Get (JStr ''https://hda.example/download/1'') ''Bearer t'' False,
              Get (JStr ''https://hda.example/status/1'') ''Bearer t'' True])"
proof -
  have "poll archive_broken_stream ''Bearer t'' (JStr []) order_running
          [Post search_url ''Bearer t'' ''2021-01-01/2021-01-10'',
           Get (JStr ''https://hda.example/download/1'') ''Bearer t'' False]
        = Some (Inr (plain_response\<lparr>chunks := [''partial''],
                  stream_error := Some (RequestException ''ChunkedEncodingError'')\<rparr>),
           [Post search_url ''Bearer t'' ''2021-01-01/2021-01-10'',
            Get (JStr ''https://hda.example/download/1'') ''Bearer t'' False,
            Get (JStr ''https://hda.example/status/1'') ''Bearer t'' True])"
    using poll_archive_broken_stream[of "[Post search_url ''Bearer t'' ''2021-01-01/2021-01-10'',
           Get (JStr ''https://hda.example/download/1'') ''Bearer t'' False]"] by simp
  moreover have "status_code order_running = 202" "stream_error order_running = None"
    by (simp_all add: order_running_def plain_response_def)
  ultimately show ?thesis
    by (simp add: retrieve_data_def Let_def archive_broken_stream_def select_product_search_hit
        download_link_example raise_for_status_def auth_headers_def stream_to_file_cases
        plain_response_def)
qed

text \<open>
  Claim C9, as amended. The polling loop has no maximum wait and no
  \<^verbatim>\<open>PollTimeoutError\<close>: it returns at once for a response without (or with an empty)
  \<^verbatim>\<open>Location\<close> header, a response it returns never has such a header, and when every
  follow-up response keeps a \<^verbatim>\<open>Location\<close> header and a status it never returns.
\<close>

theorem polling_has_no_bound:
  "(location r = None \<or> location r = Some [] \<longrightarrow>
      poll net auth old r log = Some (Inr r, log))
   \<and> (\<forall>rf lg. poll net auth old r log = Some (Inr rf, lg) \<longrightarrow>
         location rf = None \<or> location rf = Some [])
   \<and> (pending r \<and> (\<forall>lg url. \<exists>r'. net lg (Get (JStr url) auth True) = Inr r' \<and> pending r') \<longrightarrow>
         poll net auth old r log = None)"
  using poll_no_location[of r net auth old log] poll_returns_without_location[of net auth old r log]
    poll_diverges[of net auth r old log]
  by blast

theorem polling_has_no_bound_witness:
  "location plain_response = None
   \<and> poll archive_pending ''Bearer t'' (JStr []) plain_response [] = Some (Inr plain_response, [])
   \<and> pending order_running
   \<and> (\<forall>lg url. \<exists>r'. archive_pending lg (Get (JStr url) ''Bearer t'' True) = Inr r' \<and> pending r')
   \<and> poll archive_pending ''Bearer t'' (JStr []) order_running [] = None"
proof -
  have l: "location plain_response = None" by (simp add: plain_response_def)
  from polling_has_no_bound[of plain_response archive_pending "''Bearer t''" "JStr []" "[]"] l
  have 1: "poll archive_pending ''Bearer t'' (JStr []) plain_response [] = Some (Inr plain_response, [])"
    by blast
  from polling_has_no_bound[of order_running archive_pending "''Bearer t''" "JStr []" "[]"]
    pending_order_running archive_pending_keeps_pending[of "''Bearer t''"]
  have 2: "poll archive_pending ''Bearer t'' (JStr []) order_running [] = None"
    by blast
  from l 1 2 pending_order_running archive_pending_keeps_pending[of "''Bearer t''"]
  show ?thesis by blast
qed

text \<open>
  Claim C9 as stated fails: against an archive whose order stays in processing, the
  task neither returns nor raises.
\<close>

theorem pending_order_never_times_out:
  "retrieve_data archive_pending (Some ''t'') Map.empty ''2021-01-01'' ''2021-01-10''
     ''data/partial/2021-01-01.nc'' = None"
proof -
  have "poll archive_pending (auth_headers (Some ''t'')) (JStr []) order_running
          [Post search_url (auth_headers (Some ''t'')) (''2021-01-01'' @ ''/'' @ ''2021-01-10''),
           Get (JStr ''https://hda.example/download/1'') (auth_headers (Some ''t'')) False] = None"
    by (rule poll_diverges[OF archive_pending_keeps_pending pending_order_running])
  moreover have "status_code order_running = 202" "stream_error order_running = None"
    by (simp_all add: order_running_def plain_response_def)
  ultimately show ?thesis
    by (simp add: retrieve_data_def Let_def archive_pending_def select_product_search_hit
        download_link_example raise_for_status_def)
qed

section \<open>Claims about the scheduler, the merge and the driver\<close>

text \<open>
  Claim C2, as amended. With a positive pool width and a completion order that is a
  permutation of the submitted tasks, when no task polls for ever: every pending
  interval is attempted (each has an outcome and has sent its search request), also
  after another task has raised, and only then does the call end. It ends with the
  exception of the first task, in completion order, that raised; that single exception
  is what the caller sees, not an aggregate of the failed intervals. Without any
  exception it returns the full list of artifact paths.
\<close>

theorem scheduler_runs_every_task_and_raises_first_failure:
  assumes "0 < workers"
    and "mset (completion_order (pending_ranges fs output_dir date_ranges))
         = mset (pending_ranges fs output_dir date_ranges)"
    and "run_tasks net access_token output_dir fs
           (completion_order (pending_ranges fs output_dir date_ranges)) = Some (results, fs', logs)"
  shows "retrieve_missing_data net access_token completion_order fs date_ranges output_dir workers
          = Some (case first_exception results of
                    Some e \<Rightarrow> Inl e
                  | None \<Rightarrow> Inr (map (\<lambda>(s, e). artifact_path output_dir s) date_ranges),
                  fs', logs)
     \<and> length results = length (pending_ranges fs output_dir date_ranges)
     \<and> list_all2 (\<lambda>(s, e) lg. \<exists>ext. lg = Post search_url (auth_headers access_token) (s @ ''/'' @ e) # ext)
          (completion_order (pending_ranges fs output_dir date_ranges)) logs
     \<and> (\<forall>(s, e)\<in>set (pending_ranges fs output_dir date_ranges).
          \<exists>lg\<in>set logs. \<exists>ext. lg = Post search_url (auth_headers access_token) (s @ ''/'' @ e) # ext)
     \<and> (\<forall>e. first_exception results = Some e \<longrightarrow>
          (\<exists>i<length results. results ! i = Inl e \<and> (\<forall>j<i. results ! j = Inr ())))"
proof (intro conjI)
  let ?tasks = "completion_order (pending_ranges fs output_dir date_ranges)"
  show "retrieve_missing_data net access_token completion_order fs date_ranges output_dir workers
          = Some (case first_exception results of
                    Some e \<Rightarrow> Inl e
                  | None \<Rightarrow> Inr (map (\<lambda>(s, e). artifact_path output_dir s) date_ranges),
                  fs', logs)"
    using assms(1,3) by (simp add: retrieve_missing_data_def Let_def split: option.splits)
  have "length results = length ?tasks" by (rule run_tasks_length[OF assms(3)])
  also have "\<dots> = length (pending_ranges fs output_dir date_ranges)"
    using assms(2) by (rule mset_eq_length)
  finally show "length results = length (pending_ranges fs output_dir date_ranges)" .
  show la: "list_all2 (\<lambda>(s, e) lg. \<exists>ext. lg = Post search_url (auth_headers access_token) (s @ ''/'' @ e) # ext)
          ?tasks logs"
    by (rule run_tasks_logs[OF assms(3)])
  show "\<forall>(s, e)\<in>set (pending_ranges fs output_dir date_ranges).
          \<exists>lg\<in>set logs. \<exists>ext. lg = Post search_url (auth_headers access_token) (s @ ''/'' @ e) # ext"
  proof (intro ballI, clarify)
    fix s e
    assume "(s, e) \<in> set (pending_ranges fs output_dir date_ranges)"
    with assms(2) have "(s, e) \<in> set ?tasks" by (metis mset_eq_setD)
    then obtain i where i: "i < length ?tasks" "?tasks ! i = (s, e)" by (auto simp: in_set_conv_nth)
    from la i have "\<exists>ext. logs ! i = Post search_url (auth_headers access_token) (s @ ''/'' @ e) # ext"
      by (auto simp: list_all2_conv_all_nth)
    moreover from la i have "logs ! i \<in> set logs" by (auto simp: list_all2_conv_all_nth)
    ultimately show "\<exists>lg\<in>set logs. \<exists>ext. lg = Post search_url (auth_headers access_token) (s @ ''/'' @ e) # ext"
      by blast
  qed
  show "\<forall>e. first_exception results = Some e \<longrightarrow>
          (\<exists>i<length results. results ! i = Inl e \<and> (\<forall>j<i. results ! j = Inr ()))"
    using first_exception_Some by blast
qed

theorem scheduler_runs_every_task_and_raises_first_failure_witness:
  "(0::int) < 2
   \<and> mset (id (pending_ranges Map.empty ''data/partial'' january_2021))
       = mset (pending_ranges Map.empty ''data/partial'' january_2021)
   \<and> run_tasks archive_two_failures (Some ''t'') ''data/partial'' Map.empty
         (id (pending_ranges Map.empty ''data/partial'' january_2021))
       = Some ([Inl (HTTPError 500), Inl (HTTPError 503), Inr ()],
           [''data/partial/2021-01-21.nc'' \<mapsto> ''data''],
           [[Post search_url ''Bearer t'' ''2021-01-01/2021-01-10'',
             Get (JStr ''https://hda.example/download/1'') ''Bearer t'' False],
            [Post search_url ''Bearer t'' ''2021-01-11/2021-01-20'',
             Get (JStr ''https://hda.example/download/1'') ''Bearer t'' False],
            [Post search_url ''Bearer t'' ''2021-01-21/2021-01-31'',
             Get (JStr ''https://hda.example/download/1'') ''Bearer t'' False]])
   \<and> retrieve_missing_data archive_two_failures (Some ''t'') id Map.empty january_2021
         ''data/partial'' 2
       = Some (Inl (HTTPError 500),
           [''data/partial/2021-01-21.nc'' \<mapsto> ''data''],
           [[Post search_url ''Bearer t'' ''2021-01-01/2021-01-10'',
             Get (JStr ''https://hda.example/download/1'') ''Bearer t'' False],
            [Post search_url ''Bearer t'' ''2021-01-11/2021-01-20'',
             Get (JStr ''https://hda.example/download/1'') ''Bearer t'' False],
            [Post search_url ''Bearer t'' ''2021-01-21/2021-01-31'',
             Get (JStr ''https://hda.example/download/1'') ''Bearer t'' False]])
   \<and> (''2021-01-21'', ''2021-01-31'') \<in> set (pending_ranges Map.empty ''data/partial'' january_2021)
   \<and> first_exception [Inl (HTTPError 500), Inl (HTTPError 503), Inr ()] = Some (HTTPError 500)"
proof -
  have w: "(0::int) < 2" by simp
  have p: "mset (id (pending_ranges Map.empty ''data/partial'' january_2021))
       = mset (pending_ranges Map.empty ''data/partial'' january_2021)" by simp
  have r: "run_tasks archive_two_failures (Some ''t'') ''data/partial'' Map.empty
         (id (pending_ranges Map.empty ''data/partial'' january_2021))
       = Some ([Inl (HTTPError 500), Inl (HTTPError 503), Inr ()],
           [''data/partial/2021-01-21.nc'' \<mapsto> ''data''],
           [[Post search_url ''Bearer t'' ''2021-01-01/2021-01-10'',
             Get (JStr ''https://hda.example/download/1'') ''Bearer t'' False],
            [Post search_url ''Bearer t'' ''2021-01-11/2021-01-20'',
             Get (JStr ''https://hda.example/download/1'') ''Bearer t'' False],
            [Post search_url ''Bearer t'' ''2021-01-21/2021-01-31'',
             Get (JStr ''https://hda.example/download/1'') ''Bearer t'' False]])"
    by (simp add: pending_january_2021_empty run_tasks_two_failures)
  have m: "(''2021-01-21'', ''2021-01-31'') \<in> set (pending_ranges Map.empty ''data/partial'' january_2021)"
    unfolding pending_january_2021_empty by (simp add: january_2021_def)
  from scheduler_runs_every_task_and_raises_first_failure[where completion_order = id
      and workers = 2 and fs = Map.empty and output_dir = "''data/partial''"
      and date_ranges = january_2021 and net = archive_two_failures
      and access_token = "Some ''t''", OF w p r]
  have "retrieve_missing_data archive_two_failures (Some ''t'') id Map.empty january_2021
         ''data/partial'' 2
       = Some (Inl (HTTPError 500),
           [''data/partial/2021-01-21.nc'' \<mapsto> ''data''],
           [[Post search_url ''Bearer t'' ''2021-01-01/2021-01-10'',
             Get (JStr ''https://hda.example/download/1'') ''Bearer t'' False],
            [Post search_url ''Bearer t'' ''2021-01-11/2021-01-20'',
             Get (JStr ''https://hda.example/download/1'') ''Bearer t'' False],
            [Post search_url ''Bearer t'' ''2021-01-21/2021-01-31'',
             Get (JStr ''https://hda.example/download/1'') ''Bearer t'' False]])"
    by simp
  with w p r m show ?thesis by simp
qed

text \<open>
  Claim C2 as stated fails: when the first two intervals of January 2021 fail with
  the statuses 500 and 503, the third one is still downloaded, but the call raises the
  \<^verbatim>\<open>HTTPError\<close> of the first interval alone; nothing in it names the second failure.
\<close>

theorem two_failures_one_exception:
  "run_tasks archive_two_failures (Some ''t'') ''data/partial'' Map.empty
       (id (pending_ranges Map.empty ''data/partial'' january_2021))
     = Some ([Inl (HTTPError 500), Inl (HTTPError 503), Inr ()],
           [''data/partial/2021-01-21.nc'' \<mapsto> ''data''],
           [[Post search_url ''Bearer t'' ''2021-01-01/2021-01-10'',
             Get (JStr ''https://hda.example/download/1'') ''Bearer t'' False],
            [Post search_url ''Bearer t'' ''2021-01-11/2021-01-20'',
             Get (JStr ''https://hda.example/download/1'') ''Bearer t'' False],
            [Post search_url ''Bearer t'' ''2021-01-21/2021-01-31'',
             Get (JStr ''https://hda.example/download/1'') ''Bearer t'' False]])
   \<and> retrieve_missing_data archive_two_failures (Some ''t'') id Map.empty january_2021
       ''data/partial'' 2
     = Some (Inl (HTTPError 500),
           [''data/partial/2021-01-21.nc'' \<mapsto> ''data''],
           [[Post search_url ''Bearer t'' ''2021-01-01/2021-01-10'',
             Get (JStr ''https://hda.example/download/1'') ''Bearer t'' False],
            [Post search_url ''Bearer t'' ''2021-01-11/2021-01-20'',
             Get (JStr ''https://hda.example/download/1'') ''Bearer t'' False],
            [Post search_url ''Bearer t'' ''2021-01-21/2021-01-31'',
             Get (JStr ''https://hda.example/download/1'') ''Bearer t'' False]])"
  by (simp add: retrieve_missing_data_def Let_def pending_january_2021_empty run_tasks_two_failures)

text \<open>
  Claim C7. An interval is pending if and only if its artifact path does not exist;
  every task that sends a request belongs to an interval whose artifact did not exist;
  a run removes no file, so an interval that is done stays done; and when all artifacts
  exist after a run, a second run on the same directory sends no request at all and
  returns the same list of paths.
\<close>

theorem resume_skips_existing_artifacts:
  assumes "0 < workers"
    and "\<forall>xs. mset (completion_order xs) = mset xs"
    and "retrieve_missing_data net access_token completion_order fs date_ranges output_dir workers
         = Some (res, fs1, logs)"
  shows "(\<forall>(s, e)\<in>set date_ranges.
            (s, e) \<in> set (pending_ranges fs output_dir date_ranges)
            \<longleftrightarrow> \<not> path_exists fs (artifact_path output_dir s))
     \<and> (\<forall>lg\<in>set logs. \<exists>(s, e)\<in>set date_ranges.
            \<not> path_exists fs (artifact_path output_dir s)
            \<and> (\<exists>ext. lg = Post search_url (auth_headers access_token) (s @ ''/'' @ e) # ext))
     \<and> (\<forall>p. path_exists fs p \<longrightarrow> path_exists fs1 p)
     \<and> ((\<forall>(s, e)\<in>set date_ranges. path_exists fs1 (artifact_path output_dir s)) \<longrightarrow>
          retrieve_missing_data net access_token completion_order fs1 date_ranges output_dir workers
          = Some (Inr (map (\<lambda>(s, e). artifact_path output_dir s) date_ranges), fs1, []))"
proof (intro conjI)
  let ?tasks = "completion_order (pending_ranges fs output_dir date_ranges)"
  from assms(1,3) obtain results where
    run: "run_tasks net access_token output_dir fs ?tasks = Some (results, fs1, logs)"
    by (auto simp: retrieve_missing_data_def Let_def split: option.splits)
  show "\<forall>(s, e)\<in>set date_ranges.
            (s, e) \<in> set (pending_ranges fs output_dir date_ranges)
            \<longleftrightarrow> \<not> path_exists fs (artifact_path output_dir s)"
    by (auto simp: pending_ranges_iff)
  show "\<forall>lg\<in>set logs. \<exists>(s, e)\<in>set date_ranges.
            \<not> path_exists fs (artifact_path output_dir s)
            \<and> (\<exists>ext. lg = Post search_url (auth_headers access_token) (s @ ''/'' @ e) # ext)"
  proof
    fix lg assume "lg \<in> set logs"
    then obtain i where i: "i < length logs" "logs ! i = lg" by (auto simp: in_set_conv_nth)
    note la = run_tasks_logs[OF run]
    from la i have il: "i < length ?tasks" by (auto simp: list_all2_conv_all_nth)
    obtain s e where t: "?tasks ! i = (s, e)" by (cases "?tasks ! i")
    from la il i t have lg: "\<exists>ext. lg = Post search_url (auth_headers access_token) (s @ ''/'' @ e) # ext"
      by (auto simp: list_all2_conv_all_nth)
    from il t have "(s, e) \<in> set ?tasks" by (metis nth_mem)
    with assms(2) have "(s, e) \<in> set (pending_ranges fs output_dir date_ranges)"
      by (metis mset_eq_setD)
    then have "(s, e) \<in> set date_ranges" "\<not> path_exists fs (artifact_path output_dir s)"
      by (simp_all add: pending_ranges_iff)
    with lg show "\<exists>(s, e)\<in>set date_ranges.
            \<not> path_exists fs (artifact_path output_dir s)
            \<and> (\<exists>ext. lg = Post search_url (auth_headers access_token) (s @ ''/'' @ e) # ext)"
      by blast
  qed
  show "\<forall>p. path_exists fs p \<longrightarrow> path_exists fs1 p"
    using run_tasks_exists[OF run] by blast
  show "(\<forall>(s, e)\<in>set date_ranges. path_exists fs1 (artifact_path output_dir s)) \<longrightarrow>
          retrieve_missing_data net access_token completion_order fs1 date_ranges output_dir workers
          = Some (Inr (map (\<lambda>(s, e). artifact_path output_dir s) date_ranges), fs1, [])"
  proof
    assume "\<forall>(s, e)\<in>set date_ranges. path_exists fs1 (artifact_path output_dir s)"
    then have "pending_ranges fs1 output_dir date_ranges = []" by (rule pending_ranges_done)
    moreover from assms(2) have "completion_order [] = []"
      by (metis mset_zero_iff_right mset.simps(1))
    ultimately show "retrieve_missing_data net access_token completion_order fs1 date_ranges output_dir workers
          = Some (Inr (map (\<lambda>(s, e). artifact_path output_dir s) date_ranges), fs1, [])"
      using assms(1) by (simp add: retrieve_missing_data_def Let_def)
  qed
qed

theorem resume_skips_existing_artifacts_witness:
  "(0::int) < 2 \<and> (\<forall>xs :: (string \<times> string) list. mset (id xs) = mset xs)
   \<and> retrieve_missing_data archive_ok (Some ''t'') id Map.empty january_2021 ''data/partial'' 2
     = Some (Inr [''data/partial/2021-01-01.nc'', ''data/partial/2021-01-11.nc'',
                ''data/partial/2021-01-21.nc''],
           [''data/partial/2021-01-01.nc'' \<mapsto> ''data'',
            ''data/partial/2021-01-11.nc'' \<mapsto> ''data'',
            ''data/partial/2021-01-21.nc'' \<mapsto> ''data''],
           [[Post search_url ''Bearer t'' ''2021-01-01/2021-01-10'',
             Get (JStr ''https://hda.example/download/1'') ''Bearer t'' False],
            [Post search_url ''Bearer t'' ''2021-01-11/2021-01-20'',
             Get (JStr ''https://hda.example/download/1'') ''Bearer t'' False],
            [Post search_url ''Bearer t'' ''2021-01-21/2021-01-31'',
             Get (JStr ''https://hda.example/download/1'') ''Bearer t'' False]])
   \<and> path_exists [''data/partial/2021-01-01.nc'' \<mapsto> ''data'',
            ''data/partial/2021-01-11.nc'' \<mapsto> ''data'',
            ''data/partial/2021-01-21.nc'' \<mapsto> ''data''] (artifact_path ''data/partial'' ''2021-01-01'')
   \<and> path_exists [''data/partial/2021-01-01.nc'' \<mapsto> ''data'',
            ''data/partial/2021-01-11.nc'' \<mapsto> ''data'',
            ''data/partial/2021-01-21.nc'' \<mapsto> ''data''] (artifact_path ''data/partial'' ''2021-01-11'')
   \<and> path_exists [''data/partial/2021-01-01.nc'' \<mapsto> ''data'',
            ''data/partial/2021-01-11.nc'' \<mapsto> ''data'',
            ''data/partial/2021-01-21.nc'' \<mapsto> ''data''] (artifact_path ''data/partial'' ''2021-01-21'')
   \<and> retrieve_missing_data archive_ok (Some ''t'') id
         [''data/partial/2021-01-01.nc'' \<mapsto> ''data'',
          ''data/partial/2021-01-11.nc'' \<mapsto> ''data'',
          ''data/partial/2021-01-21.nc'' \<mapsto> ''data''] january_2021 ''data/partial'' 2
     = Some (Inr [''data/partial/2021-01-01.nc'', ''data/partial/2021-01-11.nc'',
                ''data/partial/2021-01-21.nc''],
           [''data/partial/2021-01-01.nc'' \<mapsto> ''data'',
            ''data/partial/2021-01-11.nc'' \<mapsto> ''data'',
            ''data/partial/2021-01-21.nc'' \<mapsto> ''data''], [])"
proof -
  let ?fs1 = "[''data/partial/2021-01-01.nc'' \<mapsto> ''data'',
            ''data/partial/2021-01-11.nc'' \<mapsto> ''data'',
            ''data/partial/2021-01-21.nc'' \<mapsto> ''data'']"
  have w: "(0::int) < 2" by simp
  have p: "\<forall>xs :: (string \<times> string) list. mset (id xs) = mset xs" by simp
  note r = retrieve_missing_data_archive_ok
  have d: "\<forall>(s, e)\<in>set january_2021. path_exists ?fs1 (artifact_path ''data/partial'' s)"
    by (simp add: january_2021_def january_2021_paths path_exists_def)
  have m: "map (\<lambda>(s, e). artifact_path ''data/partial'' s) january_2021
           = [''data/partial/2021-01-01.nc'', ''data/partial/2021-01-11.nc'',
                ''data/partial/2021-01-21.nc'']"
    by (simp add: january_2021_def january_2021_paths)
  from resume_skips_existing_artifacts[where completion_order = id and workers = 2
      and fs = Map.empty and output_dir = "''data/partial''" and date_ranges = january_2021
      and net = archive_ok and access_token = "Some ''t''", OF w p r] d
  have "retrieve_missing_data archive_ok (Some ''t'') id ?fs1 january_2021 ''data/partial'' 2
     = Some (Inr (map (\<lambda>(s, e). artifact_path ''data/partial'' s) january_2021), ?fs1, [])"
    by blast
  moreover have "path_exists ?fs1 (artifact_path ''data/partial'' ''2021-01-01'')"
    "path_exists ?fs1 (artifact_path ''data/partial'' ''2021-01-11'')"
    "path_exists ?fs1 (artifact_path ''data/partial'' ''2021-01-21'')"
    by (simp_all add: january_2021_paths path_exists_def)
  ultimately show ?thesis using w p r m by simp
qed

text \<open>
  Claim C4, as amended. The merge raises, and writes nothing, when an input file is
  missing (\<^verbatim>\<open>FileNotFoundError\<close>) or cannot be read (the exception of the backend), so
  an incomplete set of partial artifacts aborts the merge. It does not look at the time
  coordinates: readable inputs are concatenated in list order, whatever their values.
\<close>

theorem merge_concatenates_in_list_order:
  "(f \<in> set output_files \<and> fs f = None \<longrightarrow>
      (\<exists>e. merge_netcdf_files_xarray decode encode fs output_files merged_file = (Inl e, fs)))
   \<and> (f \<in> set output_files \<and> fs f = Some content \<and> decode content = Inl e' \<longrightarrow>
      (\<exists>e. merge_netcdf_files_xarray decode encode fs output_files merged_file = (Inl e, fs)))
   \<and> (output_files \<noteq> []
       \<and> list_all2 (\<lambda>file ds. \<exists>content. fs file = Some content \<and> decode content = Inr ds)
            output_files datasets \<longrightarrow>
      merge_netcdf_files_xarray decode encode fs output_files merged_file
      = (Inr (), fs(merged_file \<mapsto> encode (concat datasets))))"
proof (intro conjI impI)
  assume "f \<in> set output_files \<and> fs f = None"
  then have "f \<in> set output_files" "open_dataset decode fs f = Inl (FileNotFoundError f)"
    by (simp_all add: open_dataset_def)
  from open_datasets_fails[OF this]
  show "\<exists>e. merge_netcdf_files_xarray decode encode fs output_files merged_file = (Inl e, fs)"
    by (auto simp: merge_netcdf_files_xarray_def)
next
  assume "f \<in> set output_files \<and> fs f = Some content \<and> decode content = Inl e'"
  then have "f \<in> set output_files" "open_dataset decode fs f = Inl e'"
    by (simp_all add: open_dataset_def)
  from open_datasets_fails[OF this]
  show "\<exists>e. merge_netcdf_files_xarray decode encode fs output_files merged_file = (Inl e, fs)"
    by (auto simp: merge_netcdf_files_xarray_def)
next
  assume a: "output_files \<noteq> []
       \<and> list_all2 (\<lambda>file ds. \<exists>content. fs file = Some content \<and> decode content = Inr ds)
            output_files datasets"
  then have "open_datasets decode fs output_files = Inr datasets"
    by (intro open_datasets_reads) simp
  moreover from a have "datasets \<noteq> []" by (auto simp: list_all2_conv_all_nth)
  ultimately show "merge_netcdf_files_xarray decode encode fs output_files merged_file
      = (Inr (), fs(merged_file \<mapsto> encode (concat datasets)))"
    by (simp add: merge_netcdf_files_xarray_def xr_concat_def)
qed

theorem merge_concatenates_in_list_order_witness:
  "(''c.nc'' \<in> set [''a.nc'', ''c.nc''] \<and> [''a.nc'' \<mapsto> ''abc''] ''c.nc'' = None)
   \<and> merge_netcdf_files_xarray example_decode example_encode [''a.nc'' \<mapsto> ''abc'']
         [''a.nc'', ''c.nc''] ''merged.nc''
       = (Inl (FileNotFoundError ''c.nc''), [''a.nc'' \<mapsto> ''abc''])
   \<and> (''x.nc'' \<in> set [''x.nc''] \<and> [''x.nc'' \<mapsto> ''corrupt''] ''x.nc'' = Some ''corrupt''
        \<and> example_decode ''corrupt'' = Inl ValueError)
   \<and> merge_netcdf_files_xarray example_decode example_encode [''x.nc'' \<mapsto> ''corrupt'']
         [''x.nc''] ''merged.nc''
       = (Inl ValueError, [''x.nc'' \<mapsto> ''corrupt''])
   \<and> ([''a.nc'', ''b.nc''] \<noteq> []
        \<and> list_all2 (\<lambda>file ds. \<exists>content.
               [''a.nc'' \<mapsto> ''abc'', ''b.nc'' \<mapsto> ''cde''] file = Some content
               \<and> example_decode content = Inr ds)
             [''a.nc'', ''b.nc''] [[97, 98, 99], [99, 100, 101]])
   \<and> merge_netcdf_files_xarray example_decode example_encode
         [''a.nc'' \<mapsto> ''abc'', ''b.nc'' \<mapsto> ''cde''] [''a.nc'', ''b.nc''] ''merged.nc''
       = (Inr (), [''a.nc'' \<mapsto> ''abc'', ''b.nc'' \<mapsto> ''cde'',
                   ''merged.nc'' \<mapsto> example_encode (concat [[97, 98, 99], [99, 100, 101]])])"
proof -
  note t = merge_concatenates_in_list_order
  have a: "''c.nc'' \<in> set [''a.nc'', ''c.nc''] \<and> [''a.nc'' \<mapsto> ''abc''] ''c.nc'' = None"
    by simp
  from t[where f = "''c.nc''" and output_files = "[''a.nc'', ''c.nc'']"
      and fs = "[''a.nc'' \<mapsto> ''abc'']" and decode = example_decode and encode = example_encode
      and merged_file = "''merged.nc''"] a
  have "\<exists>e. merge_netcdf_files_xarray example_decode example_encode [''a.nc'' \<mapsto> ''abc'']
         [''a.nc'', ''c.nc''] ''merged.nc'' = (Inl e, [''a.nc'' \<mapsto> ''abc''])"
    by blast
  then have 1: "merge_netcdf_files_xarray example_decode example_encode [''a.nc'' \<mapsto> ''abc'']
         [''a.nc'', ''c.nc''] ''merged.nc''
       = (Inl (FileNotFoundError ''c.nc''), [''a.nc'' \<mapsto> ''abc''])"
    by (simp add: merge_netcdf_files_xarray_def open_dataset_def example_decode_abc)
  have b: "''x.nc'' \<in> set [''x.nc''] \<and> [''x.nc'' \<mapsto> ''corrupt''] ''x.nc'' = Some ''corrupt''
        \<and> example_decode ''corrupt'' = Inl ValueError"
    by (simp add: example_decode_def)
  from t[where f = "''x.nc''" and output_files = "[''x.nc'']"
      and fs = "[''x.nc'' \<mapsto> ''corrupt'']" and decode = example_decode and encode = example_encode
      and merged_file = "''merged.nc''" and content = "''corrupt''" and e' = ValueError] b
  have "\<exists>e. merge_netcdf_files_xarray example_decode example_encode [''x.nc'' \<mapsto> ''corrupt'']
         [''x.nc''] ''merged.nc'' = (Inl e, [''x.nc'' \<mapsto> ''corrupt''])"
    by blast
  then have 2: "merge_netcdf_files_xarray example_decode example_encode [''x.nc'' \<mapsto> ''corrupt'']
         [''x.nc''] ''merged.nc''
       = (Inl ValueError, [''x.nc'' \<mapsto> ''corrupt''])"
    by (simp add: merge_netcdf_files_xarray_def open_dataset_def example_decode_def)
  have c: "[''a.nc'', ''b.nc''] \<noteq> []
        \<and> list_all2 (\<lambda>file ds. \<exists>content.
               [''a.nc'' \<mapsto> ''abc'', ''b.nc'' \<mapsto> ''cde''] file = Some content
               \<and> example_decode content = Inr ds)
             [''a.nc'', ''b.nc''] [[97, 98, 99], [99, 100, 101]]"
    by (simp add: example_decode_abc example_decode_cde)
  from t[where output_files = "[''a.nc'', ''b.nc'']"
      and fs = "[''a.nc'' \<mapsto> ''abc'', ''b.nc'' \<mapsto> ''cde'']" and decode = example_decode
      and encode = example_encode and merged_file = "''merged.nc''"
      and datasets = "[[97, 98, 99], [99, 100, 101]]"] c
  have 3: "merge_netcdf_files_xarray example_decode example_encode
         [''a.nc'' \<mapsto> ''abc'', ''b.nc'' \<mapsto> ''cde''] [''a.nc'', ''b.nc''] ''merged.nc''
       = (Inr (), [''a.nc'' \<mapsto> ''abc'', ''b.nc'' \<mapsto> ''cde'',
                   ''merged.nc'' \<mapsto> example_encode (concat [[97, 98, 99], [99, 100, 101]])])"
    by blast
  from a 1 b 2 c 3 show ?thesis by blast
qed

text \<open>
  Claim C4 as stated fails: an artifact that ends at time 99 followed by one that
  starts at time 99, and the same two in the wrong order, are merged without any error.
\<close>

theorem overlapping_artifacts_are_merged:
  "merge_netcdf_files_xarray example_decode example_encode
      [''a.nc'' \<mapsto> ''abc'', ''b.nc'' \<mapsto> ''cde''] [''a.nc'', ''b.nc''] ''merged.nc''
   = (Inr (), [''a.nc'' \<mapsto> ''abc'', ''b.nc'' \<mapsto> ''cde'',
               ''merged.nc'' \<mapsto> example_encode [97, 98, 99, 99, 100, 101]])
   \<and> merge_netcdf_files_xarray example_decode example_encode
      [''a.nc'' \<mapsto> ''abc'', ''b.nc'' \<mapsto> ''cde''] [''b.nc'', ''a.nc''] ''merged.nc''
   = (Inr (), [''a.nc'' \<mapsto> ''abc'', ''b.nc'' \<mapsto> ''cde'',
               ''merged.nc'' \<mapsto> example_encode [99, 100, 101, 97, 98, 99]])"
  by (simp add: merge_netcdf_files_xarray_def open_dataset_def xr_concat_def
      example_decode_abc example_decode_cde)

text \<open>
  Claim C5 at its failing input. With a token that is \<^verbatim>\<open>None\<close> the run of
  \<^verbatim>\<open>download_dataset(2021, 2021, "SST", 2)\<close> is not stopped: every task sends its search
  request with the header \<^verbatim>\<open>Bearer None\<close>; against an archive that answers 401 the
  tasks return quietly and the run ends in the merge, with \<^verbatim>\<open>FileNotFoundError\<close>.
\<close>

theorem null_token_requests_are_sent:
  "download_dataset archive_unauthorized None id example_decode example_encode Map.empty
      2021 2021 ''SST'' 2
   = Some (Inl (FileNotFoundError ''data/partial/2021-01-01.nc''), Map.empty,
       [[Post search_url ''Bearer None'' ''2021-01-01/2021-01-10''],
        [Post search_url ''Bearer None'' ''2021-01-11/2021-01-20''],
        [Post search_url ''Bearer None'' ''2021-01-21/2021-01-31'']])"
  by (simp add: download_dataset_def generate_date_ranges_2021 retrieve_missing_data_def Let_def
      pending_january_2021_empty)
     (simp add: january_2021_def january_2021_paths retrieve_data_unauthorized auth_headers_def
      merge_netcdf_files_xarray_def open_dataset_def)

end
